theory Spec2Isabelle
  imports Complex_Main
begin

section \<open>Values, errors and arrays\<close>

text \<open>
  The pipeline of \<^verbatim>\<open>BehavPreprocess.__init__\<close> (scripts/BehavPreprocess.py) is embedded
  stage by stage. Every exception the constructor can raise is a value of \<open>error\<close>; a stage
  that can raise returns \<open>error + 'a\<close> with \<open>Inl\<close> for the exception.
\<close>

datatype error =
  AssertionError | IndexError | ValueError | KeyError | ZeroDivisionError
  | AttributeError | ExternalError

text \<open>
  A float64 array entry: a finite number, one of the two infinities, or NaN. Only the
  comparison and the tests \<^verbatim>\<open>np.isnan\<close>, \<^verbatim>\<open>np.isinf\<close> are interpreted; the arithmetic of
  numpy is a parameter of the model (record \<open>ext\<close> below).
\<close>

datatype fl = Fin real | PInf | NInf | NaN

fun np_isnan :: "fl \<Rightarrow> bool" where
  "np_isnan NaN = True"
| "np_isnan _ = False"

fun np_isinf :: "fl \<Rightarrow> bool" where
  "np_isinf PInf = True"
| "np_isinf NInf = True"
| "np_isinf _ = False"

text \<open>The comparison \<^verbatim>\<open>a < b\<close> of two floats: false as soon as one side is NaN.\<close>

fun fl_less :: "fl \<Rightarrow> fl \<Rightarrow> bool" where
  "fl_less (Fin a) (Fin b) = (a < b)"
| "fl_less (Fin a) PInf = True"
| "fl_less NInf (Fin b) = True"
| "fl_less NInf PInf = True"
| "fl_less _ _ = False"

text \<open>
  A two-dimensional ndarray: \<open>rows\<close> holds axis 0, \<open>ncols\<close> is \<^verbatim>\<open>shape[1]\<close> (kept apart from
  the rows, so that an array of shape (0, n) still knows n).
\<close>

record ndarray =
  ncols :: nat
  rows :: "fl list list"

definition shape0 :: "ndarray \<Rightarrow> nat" where
  "shape0 m = length (rows m)"

definition shape1 :: "ndarray \<Rightarrow> nat" where
  "shape1 m = ncols m"

definition wf_array :: "ndarray \<Rightarrow> bool" where
  "wf_array m = list_all (\<lambda>r. length r = ncols m) (rows m)"

definition np_zeros :: "nat \<Rightarrow> nat \<Rightarrow> ndarray" where
  "np_zeros r c = \<lparr>ncols = c, rows = replicate r (replicate c (Fin 0))\<rparr>"

definition np_zeros_like :: "ndarray \<Rightarrow> ndarray" where
  "np_zeros_like m = np_zeros (shape0 m) (shape1 m)"

definition column :: "ndarray \<Rightarrow> nat \<Rightarrow> fl list" where
  "column m j = map (\<lambda>r. r ! j) (rows m)"

definition columns :: "ndarray \<Rightarrow> fl list list" where
  "columns m = map (column m) [0..<ncols m]"

definition np_transpose :: "ndarray \<Rightarrow> ndarray" where
  "np_transpose m = \<lparr>ncols = length (rows m), rows = columns m\<rparr>"

text \<open>
  \<^verbatim>\<open>a[i,:] = v\<close> for a one-dimensional \<open>v\<close>: the lengths agree, or \<open>v\<close> has one element that
  is broadcast, or numpy raises ValueError.
\<close>

definition assign_row :: "ndarray \<Rightarrow> nat \<Rightarrow> fl list \<Rightarrow> error + ndarray" where
  "assign_row a i v =
     (if length v = ncols a then Inr (a\<lparr>rows := (rows a)[i := v]\<rparr>)
      else if length v = 1 then Inr (a\<lparr>rows := (rows a)[i := replicate (ncols a) (hd v)]\<rparr>)
      else Inl ValueError)"

subsection \<open>Python indexing and slicing\<close>

text \<open>A slice bound \<open>i\<close> on a sequence of length \<open>n\<close>: negative bounds count from the end.\<close>

definition slice_bound :: "nat \<Rightarrow> int \<Rightarrow> nat" where
  "slice_bound n i = (if i < 0 then nat (max (int n + i) 0) else min (nat i) n)"

text \<open>\<^verbatim>\<open>xs[lo:hi]\<close>; an omitted bound is \<open>None\<close>.\<close>

definition py_slice :: "'a list \<Rightarrow> int option \<Rightarrow> int option \<Rightarrow> 'a list" where
  "py_slice xs lo hi =
     (let n = length xs;
          l = (case lo of None \<Rightarrow> 0 | Some i \<Rightarrow> slice_bound n i);
          h = (case hi of None \<Rightarrow> n | Some i \<Rightarrow> slice_bound n i)
      in take (h - l) (drop l xs))"

text \<open>\<^verbatim>\<open>xs[lo:hi] = v\<close> for a scalar \<open>v\<close>.\<close>

definition slice_fill :: "'a list \<Rightarrow> int option \<Rightarrow> int option \<Rightarrow> 'a \<Rightarrow> 'a list" where
  "slice_fill xs lo hi v =
     (let n = length xs;
          l = (case lo of None \<Rightarrow> 0 | Some i \<Rightarrow> slice_bound n i);
          h = (case hi of None \<Rightarrow> n | Some i \<Rightarrow> slice_bound n i)
      in map (\<lambda>k. if l \<le> k \<and> k < h then v else xs ! k) [0..<n])"

text \<open>\<^verbatim>\<open>xs[i] = v\<close> for an integer \<open>i\<close>: IndexError outside \<open>-n \<le> i < n\<close>.\<close>

definition py_setitem :: "'a list \<Rightarrow> int \<Rightarrow> 'a \<Rightarrow> error + 'a list" where
  "py_setitem xs i v =
     (let n = int (length xs); j = (if i < 0 then n + i else i)
      in if 0 \<le> j \<and> j < n then Inr (xs[nat j := v]) else Inl IndexError)"

text \<open>\<^verbatim>\<open>xs[mask]\<close> and \<^verbatim>\<open>xs[mask] = v\<close> for a boolean mask: the lengths must agree.\<close>

definition compress :: "bool list \<Rightarrow> 'a list \<Rightarrow> 'a list" where
  "compress bm xs = map fst (filter snd (zip xs bm))"

definition mask_select :: "'a list \<Rightarrow> bool list \<Rightarrow> error + 'a list" where
  "mask_select xs bm =
     (if length bm \<noteq> length xs then Inl IndexError else Inr (compress bm xs))"

definition mask_fill :: "'a list \<Rightarrow> bool list \<Rightarrow> 'a \<Rightarrow> error + 'a list" where
  "mask_fill xs bm v =
     (if length bm \<noteq> length xs then Inl IndexError
      else Inr (map (\<lambda>(x, b). if b then v else x) (zip xs bm)))"

text \<open>\<^verbatim>\<open>m[:, mask]\<close>: the mask selects columns.\<close>

definition mask_columns :: "ndarray \<Rightarrow> bool list \<Rightarrow> error + ndarray" where
  "mask_columns m bm =
     (if length bm \<noteq> ncols m then Inl IndexError
      else Inr \<lparr>ncols = length (filter id bm), rows = map (compress bm) (rows m)\<rparr>)"

text \<open>\<^verbatim>\<open>np.concatenate\<close> along axis 0 of one-dimensional arrays, and along axis 1.\<close>

definition concatenate0 :: "'a list list \<Rightarrow> error + 'a list" where
  "concatenate0 xss = (if xss = [] then Inl ValueError else Inr (concat xss))"

definition concatenate1 :: "ndarray list \<Rightarrow> error + ndarray" where
  "concatenate1 ms =
     (case ms of
        [] \<Rightarrow> Inl ValueError
      | m # _ \<Rightarrow>
          if list_all (\<lambda>k. shape0 k = shape0 m) ms
          then Inr \<lparr>ncols = sum_list (map ncols ms),
                    rows = map (\<lambda>i. concat (map (\<lambda>k. rows k ! i) ms)) [0..<shape0 m]\<rparr>
          else Inl ValueError)"

text \<open>\<^verbatim>\<open>folder_name in experiment_path\<close>: the substring test on strings.\<close>

fun startswith :: "string \<Rightarrow> string \<Rightarrow> bool" where
  "startswith [] ys = True"
| "startswith (x # xs) [] = False"
| "startswith (x # xs) (y # ys) = (x = y \<and> startswith xs ys)"

fun str_contains :: "string \<Rightarrow> string \<Rightarrow> bool" where
  "str_contains needle [] = (needle = [])"
| "str_contains needle (h # hs) = (startswith needle (h # hs) \<or> str_contains needle hs)"

subsection \<open>Loops that stop at the first exception\<close>

fun efold :: "('a \<Rightarrow> 's \<Rightarrow> error + 's) \<Rightarrow> 'a list \<Rightarrow> 's \<Rightarrow> error + 's" where
  "efold f [] s = Inr s"
| "efold f (x # xs) s = (case f x s of Inl e \<Rightarrow> Inl e | Inr s' \<Rightarrow> efold f xs s')"

fun emap :: "('a \<Rightarrow> error + 'b) \<Rightarrow> 'a list \<Rightarrow> error + 'b list" where
  "emap f [] = Inr []"
| "emap f (x # xs) =
     (case f x of
        Inl e \<Rightarrow> Inl e
      | Inr y \<Rightarrow> (case emap f xs of Inl e \<Rightarrow> Inl e | Inr ys \<Rightarrow> Inr (y # ys)))"

definition ebind :: "error + 'a \<Rightarrow> ('a \<Rightarrow> error + 'b) \<Rightarrow> error + 'b" where
  "ebind m f = (case m of Inl e \<Rightarrow> Inl e | Inr v \<Rightarrow> f v)"

text \<open>
  The same loop where the state reached so far stays observable when an exception ends
  it: \<open>Some e\<close> is the exception, \<open>None\<close> a completed loop.
\<close>

fun sfold :: "('a \<Rightarrow> 's \<Rightarrow> 's \<times> error option) \<Rightarrow> 'a list \<Rightarrow> 's \<Rightarrow> 's \<times> error option" where
  "sfold f [] s = (s, None)"
| "sfold f (x # xs) s =
     (case f x s of (s', Some e) \<Rightarrow> (s', Some e) | (s', None) \<Rightarrow> sfold f xs s')"

section \<open>The environment of the constructor\<close>

text \<open>
  Modelled from the spec: the enum \<^verbatim>\<open>Behav\<close> of module behav_annotation, which
  BehavPreprocess.py imports and whose source is not part of the repository's files. The
  spec gives it the members NONE, REST and BOUNDARY and one or more behaviour classes
  drawn from the ground truth; distinct members of a Python enum have distinct values.
\<close>

datatype Behav = NONE | REST | BOUNDARY | CLASS nat

text \<open>
  An entry of \<^verbatim>\<open>label_gt_list\<close>:
  \<^verbatim>\<open>(offset_gt_start, offset_gt_end), label_gt_behav, folder_name\<close>.
\<close>

type_synonym label_gt = "(int \<times> int) \<times> Behav \<times> string"

text \<open>A pandas DataFrame: its columns by name, in order.\<close>

type_synonym dataframe = "(string \<times> fl list) list"

text \<open>
  What the constructor takes from other modules and libraries: the electrode names of
  headband_setup, the ground-truth list of behav_annotation, the file system behind
  \<^verbatim>\<open>pd.read_csv\<close>, the filter of scipy, the wavelet transform \<^verbatim>\<open>find_wav\<close>, Otsu's
  threshold of skimage, and the floating-point arithmetic of numpy.
\<close>

record ext =
  electrode_names :: "string list"
  label_gt_list :: "label_gt list"
  read_csv :: "string \<Rightarrow> error + dataframe"
  savgol_filter :: "fl list \<Rightarrow> nat \<Rightarrow> nat \<Rightarrow> error + fl list"
  find_wav :: "ndarray \<Rightarrow> int \<Rightarrow> int \<Rightarrow> int \<Rightarrow> int \<Rightarrow> int \<Rightarrow> error + (ndarray \<times> fl list)"
  threshold_otsu :: "fl list \<Rightarrow> nat \<Rightarrow> error + fl"
  np_mean :: "fl list \<Rightarrow> fl"
  np_subtract :: "fl \<Rightarrow> fl \<Rightarrow> fl"
  np_var :: "fl list \<Rightarrow> fl"
  np_sum :: "fl list \<Rightarrow> fl"
  np_log10 :: "fl \<Rightarrow> fl"
  np_max :: "fl list \<Rightarrow> fl"
  np_divide :: "fl \<Rightarrow> fl \<Rightarrow> fl"

text \<open>The keyword arguments of \<^verbatim>\<open>__init__\<close>.\<close>

record config =
  ti :: int
  tf :: "int option"
  samp_rate :: int
  min_frequency :: int
  max_frequency :: int
  num_channels :: int
  bound_len :: int
  clip_len :: int
  smooth :: bool
  mean_center :: bool
  normalize :: bool
  no_bounds :: bool
  dump_rest :: bool

definition default_config :: config where
  "default_config =
     \<lparr>ti = 0, tf = None, samp_rate = 220, min_frequency = 1, max_frequency = 50,
      num_channels = 30, bound_len = 50, clip_len = 100, smooth = True, mean_center = True,
      normalize = True, no_bounds = False, dump_rest = False\<rparr>"

section \<open>The store\<close>

text \<open>
  The constructor shares objects: \<^verbatim>\<open>self.smooth_exp_list = self.exp_eeg_list\<close> and
  \<^verbatim>\<open>self.norm_wav_exp_list = self.wav_exp_list\<close> copy a reference to a list, and the arrays
  in the lists are updated in place. So the two-dimensional arrays and the lists that hold
  them live in a store: an array object is its position in \<open>arrays\<close>, a list object its
  position in \<open>pylists\<close>, and a list holds the addresses of its arrays. The other attributes
  are never shared and are plain values.
\<close>

record heap =
  arrays :: "ndarray list"
  pylists :: "nat list list"

text \<open>
  The three lists made by \<^verbatim>\<open>list()\<close> at lines 51 to 53: \<^verbatim>\<open>exp_eeg_list\<close>,
  \<^verbatim>\<open>smooth_exp_list\<close>, \<^verbatim>\<open>wav_exp_list\<close>.
\<close>

definition eeg_obj :: nat where "eeg_obj = 0"
definition smooth_obj :: nat where "smooth_obj = 1"
definition wav_obj :: nat where "wav_obj = 2"

definition heap0 :: heap where
  "heap0 = \<lparr>arrays = [], pylists = [[], [], []]\<rparr>"

text \<open>\<^verbatim>\<open>lst[i]\<close> for a list object \<open>l\<close>: the array it refers to.\<close>

definition array_at :: "heap \<Rightarrow> nat \<Rightarrow> nat \<Rightarrow> ndarray" where
  "array_at h l i = arrays h ! (pylists h ! l ! i)"

definition arrays_of :: "heap \<Rightarrow> nat \<Rightarrow> ndarray list" where
  "arrays_of h l = map (\<lambda>a. arrays h ! a) (pylists h ! l)"

text \<open>\<^verbatim>\<open>lst.append(m)\<close> for a newly made array \<open>m\<close>.\<close>

definition append_new :: "nat \<Rightarrow> ndarray \<Rightarrow> heap \<Rightarrow> heap" where
  "append_new l m h =
     h\<lparr>arrays := arrays h @ [m],
       pylists := (pylists h)[l := pylists h ! l @ [length (arrays h)]]\<rparr>"

section \<open>Reading the data (lines 63 to 72)\<close>

text \<open>\<^verbatim>\<open>int(exp_dict.size/len(exp_dict.keys()))\<close>\<close>

definition df_length :: "dataframe \<Rightarrow> error + int" where
  "df_length df =
     (if length df = 0 then Inl ZeroDivisionError
      else Inr (int (sum_list (map (\<lambda>c. length (snd c)) df) div length df)))"

text \<open>
  \<^verbatim>\<open>self.exp_eeg_list[-1][i,:] = exp_dict[self.electrodes[i]][ti:tf]\<close>, where \<open>a\<close> is the
  address of the array appended last.
\<close>

definition load_row :: "dataframe \<Rightarrow> string list \<Rightarrow> int \<Rightarrow> int \<Rightarrow> nat \<Rightarrow> nat \<Rightarrow> heap
    \<Rightarrow> heap \<times> error option" where
  "load_row df els t0 t1 a i h =
     (case map_of df (els ! i) of
        None \<Rightarrow> (h, Some KeyError)
      | Some series \<Rightarrow>
          (case assign_row (arrays h ! a) i (py_slice series (Some t0) (Some t1)) of
             Inl e \<Rightarrow> (h, Some e)
           | Inr m \<Rightarrow> (h\<lparr>arrays := (arrays h)[a := m]\<rparr>, None)))"

text \<open>
  Lines 65 to 68: the value assigned to \<^verbatim>\<open>tf\<close>, from its current value and the length
  of the recording.
\<close>

definition resolve_tf :: "int option \<Rightarrow> int \<Rightarrow> int" where
  "resolve_tf tfo n = (case tfo of None \<Rightarrow> n | Some t \<Rightarrow> min t n)"

text \<open>
  One round of the loop over \<^verbatim>\<open>self.exp_path_list\<close>. The state is the store and the
  current value of the variable \<^verbatim>\<open>tf\<close>, which the loop overwrites.
\<close>

definition read_exp :: "ext \<Rightarrow> int \<Rightarrow> string \<Rightarrow> heap \<times> int option
    \<Rightarrow> (heap \<times> int option) \<times> error option" where
  "read_exp x t0 path st =
     (case st of (h, tfo) \<Rightarrow>
        (case read_csv x path of
           Inl e \<Rightarrow> ((h, tfo), Some e)
         | Inr df \<Rightarrow>
             (case df_length df of
                Inl e \<Rightarrow> ((h, tfo), Some e)
              | Inr n \<Rightarrow>
                  (let t1 = resolve_tf tfo n in
                   if \<not> t1 > t0 then ((h, Some t1), Some AssertionError)
                   else
                     (let els = electrode_names x;
                          a = length (arrays h);
                          h1 = append_new eeg_obj (np_zeros (length els) (nat (t1 - t0))) h
                      in case sfold (load_row df els t0 t1 a) [0..<length els] h1 of
                           (h2, r) \<Rightarrow> ((h2, Some t1), r))))))"

definition read_data :: "ext \<Rightarrow> int \<Rightarrow> int option \<Rightarrow> string list
    \<Rightarrow> (heap \<times> int option) \<times> error option" where
  "read_data x t0 tfo paths = sfold (read_exp x t0) paths (heap0, tfo)"

section \<open>Smoothing and mean centering (lines 85 to 100)\<close>

text \<open>
  \<^verbatim>\<open>self.smooth_exp_list[i][j,:] = savgol_filter(self.exp_eeg_list[i][j,:], 5, 4)\<close>
\<close>

definition smooth_row :: "ext \<Rightarrow> nat \<Rightarrow> nat \<Rightarrow> heap \<Rightarrow> error + heap" where
  "smooth_row x i j h =
     (case savgol_filter x (rows (array_at h eeg_obj i) ! j) 5 4 of
        Inl e \<Rightarrow> Inl e
      | Inr v \<Rightarrow>
          (case assign_row (array_at h smooth_obj i) j v of
             Inl e \<Rightarrow> Inl e
           | Inr m \<Rightarrow> Inr (h\<lparr>arrays := (arrays h)[pylists h ! smooth_obj ! i := m]\<rparr>)))"

definition smooth_exp :: "ext \<Rightarrow> nat \<Rightarrow> heap \<Rightarrow> error + heap" where
  "smooth_exp x i h =
     efold (smooth_row x i) [0..<length (electrode_names x)]
       (append_new smooth_obj (np_zeros_like (array_at h eeg_obj i)) h)"

text \<open>
  The stage returns the store and the list object that \<^verbatim>\<open>self.smooth_exp_list\<close> refers to
  afterwards: with \<^verbatim>\<open>smooth=False\<close> it is the object of \<^verbatim>\<open>self.exp_eeg_list\<close>.
\<close>

definition smoothing :: "ext \<Rightarrow> bool \<Rightarrow> nat \<Rightarrow> heap \<Rightarrow> error + (heap \<times> nat)" where
  "smoothing x sm n h =
     (if sm then ebind (efold (smooth_exp x) [0..<n] h) (\<lambda>h'. Inr (h', smooth_obj))
      else Inr (h, eeg_obj))"

text \<open>
  \<^verbatim>\<open>self.smooth_exp_list[i][j,:] -= np.mean(self.smooth_exp_list[i][j,:])\<close>, in place.
\<close>

definition center :: "ext \<Rightarrow> fl list \<Rightarrow> fl list" where
  "center x r = map (\<lambda>v. np_subtract x v (np_mean x r)) r"

definition center_row :: "ext \<Rightarrow> nat \<Rightarrow> nat \<Rightarrow> nat \<Rightarrow> heap \<Rightarrow> heap" where
  "center_row x sl i j h =
     (let a = pylists h ! sl ! i; m = arrays h ! a
      in h\<lparr>arrays := (arrays h)[a := m\<lparr>rows := (rows m)[j := center x (rows m ! j)]\<rparr>]\<rparr>)"

definition mean_centering :: "ext \<Rightarrow> bool \<Rightarrow> nat \<Rightarrow> nat \<Rightarrow> heap \<Rightarrow> heap" where
  "mean_centering x mc sl n h =
     (if mc
      then fold (\<lambda>i. fold (center_row x sl i) [0..<length (electrode_names x)]) [0..<n] h
      else h)"

text \<open>
  What the two loops of lines 98 to 100 make of one array: every row minus its mean.
\<close>

definition center_array :: "ext \<Rightarrow> ndarray \<Rightarrow> ndarray" where
  "center_array x m = m\<lparr>rows := map (center x) (rows m)\<rparr>"

section \<open>Time-frequency analysis, frame statistics, normalization (lines 106 to 126)\<close>

text \<open>
  One round of the loop at line 106. The state is the store and
  \<^verbatim>\<open>self.freq_channels\<close>, an attribute that does not exist before the first round.
\<close>

definition wavelet_exp :: "ext \<Rightarrow> config \<Rightarrow> nat \<Rightarrow> nat \<Rightarrow> heap \<times> fl list option
    \<Rightarrow> error + (heap \<times> fl list option)" where
  "wavelet_exp x c sl i st =
     (case st of (h, fc) \<Rightarrow>
        (case find_wav x (np_transpose (array_at h sl i)) (num_channels c) 5 (samp_rate c)
                (min_frequency c) (max_frequency c) of
           Inl e \<Rightarrow> Inl e
         | Inr (w, f) \<Rightarrow> Inr (append_new wav_obj (np_transpose w) h, Some f)))"

text \<open>The loop, and the \<^verbatim>\<open>print\<close> of \<^verbatim>\<open>self.freq_channels\<close> at line 111.\<close>

definition wavelets :: "ext \<Rightarrow> config \<Rightarrow> nat \<Rightarrow> nat \<Rightarrow> heap \<Rightarrow> error + (heap \<times> fl list)" where
  "wavelets x c sl n h =
     ebind (efold (wavelet_exp x c sl) [0..<n] (h, None))
       (\<lambda>(h', fc). case fc of None \<Rightarrow> Inl AttributeError | Some f \<Rightarrow> Inr (h', f))"

text \<open>\<^verbatim>\<open>np.log10(np.var(exp, axis=0))\<close> and \<^verbatim>\<open>np.log10(np.sum(exp, axis=0))\<close>\<close>

definition frame_var :: "ext \<Rightarrow> ndarray \<Rightarrow> fl list" where
  "frame_var x m = map (\<lambda>col. np_log10 x (np_var x col)) (columns m)"

definition frame_amp :: "ext \<Rightarrow> ndarray \<Rightarrow> fl list" where
  "frame_amp x m = map (\<lambda>col. np_log10 x (np_sum x col)) (columns m)"

text \<open>
  \<^verbatim>\<open>exp / exp.max(axis=0)\<close>: every column divided by its maximum; the reduction raises
  ValueError on an array with no rows.
\<close>

definition normalized :: "ext \<Rightarrow> ndarray \<Rightarrow> error + ndarray" where
  "normalized x m =
     (if shape0 m = 0 then Inl ValueError
      else Inr \<lparr>ncols = ncols m,
                rows = map (\<lambda>r. map2 (np_divide x) r (map (np_max x) (columns m))) (rows m)\<rparr>)"

text \<open>
  \<^verbatim>\<open>self.norm_wav_exp_list[exp_idx] = self.wav_exp_list[exp_idx] / ...\<close>: a new array, stored
  in the list object \<open>nl\<close> at position \<open>i\<close>.
\<close>

definition normalize_exp :: "ext \<Rightarrow> nat \<Rightarrow> nat \<Rightarrow> nat \<Rightarrow> heap \<Rightarrow> error + heap" where
  "normalize_exp x wl nl i h =
     ebind (normalized x (array_at h wl i))
       (\<lambda>q. Inr (h\<lparr>arrays := arrays h @ [q],
                   pylists := (pylists h)[nl := (pylists h ! nl)[i := length (arrays h)]]\<rparr>))"

definition normalization :: "ext \<Rightarrow> bool \<Rightarrow> nat \<Rightarrow> nat \<Rightarrow> heap \<Rightarrow> error + heap" where
  "normalization x nm wl nl h =
     (if nm then efold (normalize_exp x wl nl) [0..<length (pylists h ! wl)] h else Inr h)"

section \<open>Index arrays and labels (lines 129 to 170)\<close>

text \<open>
  \<^verbatim>\<open>[np.ones(shape=(exp.shape[1],)) * idx for (idx, exp) in enumerate(self.exp_eeg_list)]\<close>
  and \<^verbatim>\<open>[np.arange(0, exp.shape[1]) for exp in self.exp_eeg_list]\<close>, before concatenation.
\<close>

definition exp_idx_parts :: "ndarray list \<Rightarrow> int list list" where
  "exp_idx_parts eegs = map (\<lambda>(idx, m). replicate (shape1 m) (int idx)) (zip [0..<length eegs] eegs)"

definition frame_idx_parts :: "ndarray list \<Rightarrow> int list list" where
  "frame_idx_parts eegs = map (\<lambda>m. map int [0..<shape1 m]) eegs"

text \<open>One array of labels per experiment, all \<^verbatim>\<open>Behav.NONE.value\<close> (lines 136 to 141).\<close>

definition behav_init :: "ndarray list \<Rightarrow> Behav list list" where
  "behav_init eegs = map (\<lambda>m. replicate (shape1 m) NONE) eegs"

subsection \<open>Annotated behaviours (lines 142 to 153)\<close>

text \<open>The loop over \<^verbatim>\<open>label_gt_list\<close> for one value of \<^verbatim>\<open>offset_mid\<close>.\<close>

fun gt_labels :: "int \<Rightarrow> string \<Rightarrow> int \<Rightarrow> label_gt list \<Rightarrow> Behav list \<Rightarrow> error + Behav list" where
  "gt_labels clip path mid [] d = Inr d"
| "gt_labels clip path mid (((gs, ge), lab, folder) # gts) d =
     (if \<not> str_contains folder path then gt_labels clip path mid gts d
      else if gs \<le> mid \<and> mid < ge then
        (if min \<bar>mid - gs\<bar> \<bar>mid - ge\<bar> > clip div 3
         then (case py_setitem d mid lab of
                 Inl e \<Rightarrow> Inl e
               | Inr d' \<Rightarrow> gt_labels clip path mid gts d')
         else gt_labels clip path mid gts d)
      else gt_labels clip path mid gts d)"

text \<open>
  The loop over \<^verbatim>\<open>offset\<close> for one experiment: \<open>n0\<close> is
  \<^verbatim>\<open>self.exp_eeg_list[exp_idx].shape[0]\<close>, the upper end of the range as the source
  writes it.
\<close>

definition gt_exp :: "int \<Rightarrow> label_gt list \<Rightarrow> string \<Rightarrow> nat \<Rightarrow> Behav list \<Rightarrow> error + Behav list" where
  "gt_exp clip gts path n0 d =
     efold (\<lambda>offset. gt_labels clip path (offset + clip div 2) gts)
       [clip div 2 .. int n0 - clip div 2 - 1] d"

definition gt_stage :: "int \<Rightarrow> label_gt list \<Rightarrow> string list \<Rightarrow> ndarray list \<Rightarrow> Behav list list
    \<Rightarrow> error + Behav list list" where
  "gt_stage clip gts paths eegs d =
     emap (\<lambda>i. gt_exp clip gts (paths ! i) (shape0 (eegs ! i)) (d ! i)) [0..<length d]"

text \<open>
  The three tests of lines 149 to 152 on one entry, the label the loop over
  \<^verbatim>\<open>label_gt_list\<close> leaves at \<^verbatim>\<open>offset_mid\<close> (the one of the last entry that passes them),
  and the frames \<^verbatim>\<open>offset_mid\<close> that the loop over \<^verbatim>\<open>offset\<close> reaches.
\<close>

definition gt_applies :: "int \<Rightarrow> string \<Rightarrow> int \<Rightarrow> label_gt \<Rightarrow> bool" where
  "gt_applies clip path mid g =
     (case g of ((gs, ge), lab, folder) \<Rightarrow>
        str_contains folder path \<and> gs \<le> mid \<and> mid < ge \<and>
        min \<bar>mid - gs\<bar> \<bar>mid - ge\<bar> > clip div 3)"

definition gt_choice :: "int \<Rightarrow> label_gt list \<Rightarrow> string \<Rightarrow> int \<Rightarrow> Behav option" where
  "gt_choice clip gts path mid =
     (case filter (gt_applies clip path mid) gts of
        [] \<Rightarrow> None
      | g # gs \<Rightarrow> Some (fst (snd (last (g # gs)))))"

definition gt_label :: "int \<Rightarrow> label_gt list \<Rightarrow> string \<Rightarrow> nat \<Rightarrow> nat \<Rightarrow> Behav option" where
  "gt_label clip gts path n0 f =
     (if 2 * (clip div 2) \<le> int f \<and> int f < int n0 then gt_choice clip gts path (int f) else None)"

subsection \<open>Rest frames (lines 156 to 161)\<close>

text \<open>
  One experiment: the threshold, the mask \<^verbatim>\<open>self.frame_amp_list[exp_idx] < thr\<close>, and the
  labels with \<^verbatim>\<open>Behav.REST.value\<close> written under the mask.
\<close>

definition rest_exp :: "ext \<Rightarrow> string \<Rightarrow> fl list \<Rightarrow> Behav list \<Rightarrow> error + (bool list \<times> Behav list)" where
  "rest_exp x path amp d =
     ebind (threshold_otsu x amp (length path div 2))
       (\<lambda>thr. let rest_mask = map (\<lambda>a. fl_less a thr) amp
               in ebind (mask_fill d rest_mask REST) (\<lambda>d'. Inr (rest_mask, d')))"

definition rest_stage :: "ext \<Rightarrow> string list \<Rightarrow> fl list list \<Rightarrow> Behav list list
    \<Rightarrow> error + (bool list \<times> Behav list) list" where
  "rest_stage x paths amps d =
     emap (\<lambda>i. rest_exp x (paths ! i) (amps ! i) (d ! i)) [0..<length paths]"

subsection \<open>Boundary frames (lines 164 to 170)\<close>

definition boundary_mask :: "int \<Rightarrow> nat \<Rightarrow> bool list" where
  "boundary_mask bl n =
     map (\<lambda>v. fl_less (Fin 0) v)
       (slice_fill (slice_fill (replicate n (Fin 0)) None (Some bl) (Fin 1))
          (Some (- bl)) None (Fin 1))"

definition boundary_exp :: "int \<Rightarrow> fl list \<Rightarrow> Behav list \<Rightarrow> error + (bool list \<times> Behav list)" where
  "boundary_exp bl amp d =
     (let bound_mask = boundary_mask bl (length amp)
      in ebind (mask_fill d bound_mask BOUNDARY) (\<lambda>d'. Inr (bound_mask, d')))"

definition boundary_stage :: "int \<Rightarrow> string list \<Rightarrow> fl list list \<Rightarrow> Behav list list
    \<Rightarrow> error + (bool list \<times> Behav list) list" where
  "boundary_stage bl paths amps d =
     emap (\<lambda>i. boundary_exp bl (amps ! i) (d ! i)) [0..<length paths]"

text \<open>
  The order of the three stages: the boundary stage writes last, the rest stage before it,
  the annotated behaviours first.
\<close>

definition precedence :: "bool \<Rightarrow> bool \<Rightarrow> Behav \<Rightarrow> Behav" where
  "precedence boundary rest gt = (if boundary then BOUNDARY else if rest then REST else gt)"

section \<open>Concatenation and masking (lines 173 to 196)\<close>

text \<open>
  \<^verbatim>\<open>self.data_mask\<close>: all true, then the two \<^verbatim>\<open>np.logical_and\<close> under their flags.
\<close>

definition data_mask_of :: "bool \<Rightarrow> bool \<Rightarrow> Behav list \<Rightarrow> bool list" where
  "data_mask_of dr nb labels =
     (let m0 = replicate (length labels) True;
          m1 = (if dr then map2 (\<and>) m0 (map (\<lambda>l. l \<noteq> REST) labels) else m0);
          m2 = (if nb then map2 (\<and>) m1 (map (\<lambda>l. l \<noteq> BOUNDARY) labels) else m1)
      in m2)"

text \<open>
  \<^verbatim>\<open>self.preprocess_data[np.logical_or(np.isnan(...), np.isinf(...))] = 0\<close>
\<close>

definition scrub :: "ndarray \<Rightarrow> ndarray" where
  "scrub m = m\<lparr>rows := map (map (\<lambda>v. if np_isnan v \<or> np_isinf v then Fin 0 else v)) (rows m)\<rparr>"

section \<open>The constructor\<close>

text \<open>The attributes of the object once \<^verbatim>\<open>__init__\<close> has returned.\<close>

record self =
  exp_path_list :: "string list"
  store :: heap
  exp_eeg_list :: nat
  smooth_exp_list :: nat
  wav_exp_list :: nat
  norm_wav_exp_list :: nat
  freq_channels :: "fl list"
  frame_var_list :: "fl list list"
  frame_amp_list :: "fl list list"
  exp_idx :: "int list"
  frame_idx :: "int list"
  test_rest_mask :: "bool list list"
  test_boundary_mask :: "bool list list"
  data_concat :: ndarray
  data_behav_concat :: "Behav list"
  data_mask :: "bool list"
  preprocess_data :: ndarray
  frame_index :: "int list"
  experminet_index :: "int list"
  frame_amplitudes :: "fl list"

text \<open>
  The stages up to the normalization work on the store. The result: the store, the list
  object of \<^verbatim>\<open>self.smooth_exp_list\<close>, \<^verbatim>\<open>self.freq_channels\<close>, and the two lists of frame
  statistics, which are computed before the normalization replaces the spectra.
\<close>

definition signal_stages :: "ext \<Rightarrow> config \<Rightarrow> string list
    \<Rightarrow> error + (heap \<times> nat \<times> fl list \<times> fl list list \<times> fl list list)" where
  "signal_stages x c paths =
     (case read_data x (ti c) (tf c) paths of
        (_, Some e) \<Rightarrow> Inl e
      | ((h1, _), None) \<Rightarrow>
          ebind (smoothing x (smooth c) (length paths) h1) (\<lambda>(h2, sl).
          let h3 = mean_centering x (mean_center c) sl (length paths) h2 in
          ebind (wavelets x c sl (length paths) h3) (\<lambda>(h4, fc).
          let fv = map (frame_var x) (arrays_of h4 wav_obj);
              fa = map (frame_amp x) (arrays_of h4 wav_obj) in
          ebind (normalization x (normalize c) wav_obj wav_obj h4) (\<lambda>h5.
          Inr (h5, sl, fc, fv, fa)))))"

text \<open>Lines 136 to 170: the labels of every experiment and the two lists of masks.\<close>

definition label_stages :: "ext \<Rightarrow> config \<Rightarrow> string list \<Rightarrow> ndarray list \<Rightarrow> fl list list
    \<Rightarrow> error + (bool list list \<times> bool list list \<times> Behav list list)" where
  "label_stages x c paths eegs fa =
     ebind (gt_stage (clip_len c) (label_gt_list x) paths eegs (behav_init eegs)) (\<lambda>d1.
     ebind (rest_stage x paths fa d1) (\<lambda>r.
     ebind (boundary_stage (bound_len c) paths fa (map snd r)) (\<lambda>b.
     Inr (map fst r, map fst b, map snd b))))"

definition init :: "ext \<Rightarrow> config \<Rightarrow> string list \<Rightarrow> error + self" where
  "init x c paths =
     ebind (signal_stages x c paths) (\<lambda>(h, sl, fc, fv, fa).
     let eegs = arrays_of h eeg_obj in
     ebind (concatenate0 (exp_idx_parts eegs)) (\<lambda>eidx.
     ebind (concatenate0 (frame_idx_parts eegs)) (\<lambda>fidx.
     ebind (label_stages x c paths eegs fa) (\<lambda>(rm, bm, d).
     ebind (concatenate1 (arrays_of h wav_obj)) (\<lambda>dc.
     ebind (concatenate0 d) (\<lambda>labels.
     if \<not> (length fidx = length eidx \<and> length eidx = shape1 dc) then Inl AssertionError
     else
       let dm = data_mask_of (dump_rest c) (no_bounds c) labels in
       ebind (mask_columns dc dm) (\<lambda>pd.
       ebind (mask_select fidx dm) (\<lambda>fi.
       ebind (mask_select eidx dm) (\<lambda>ei.
       ebind (concatenate0 fa) (\<lambda>amps.
       ebind (mask_select amps dm) (\<lambda>fam.
       Inr \<lparr>exp_path_list = paths, store = h, exp_eeg_list = eeg_obj,
            smooth_exp_list = sl, wav_exp_list = wav_obj, norm_wav_exp_list = wav_obj,
            freq_channels = fc, frame_var_list = fv, frame_amp_list = fa,
            exp_idx = eidx, frame_idx = fidx, test_rest_mask = rm,
            test_boundary_mask = bm, data_concat = dc, data_behav_concat = labels,
            data_mask = dm, preprocess_data = scrub pd, frame_index = fi,
            experminet_index = ei, frame_amplitudes = fam\<rparr>)))))))))))"

text \<open>The dictionary \<^verbatim>\<open>self.preprocess_dict\<close> (lines 199 to 206).\<close>

record preprocess_dict =
  Paths :: "string list"
  EEG_list :: nat
  Smooth_EEG_list :: nat
  Spect_list :: nat
  Normalized_Spect_list :: nat
  Exp_matrix :: ndarray
  Frame_idx :: "int list"
  Experiment_idx :: "int list"
  Frame_amps :: "fl list"
  Rest_mask :: "bool list list"
  Boundary_mask :: "bool list list"

definition preprocess_dict_of :: "self \<Rightarrow> preprocess_dict" where
  "preprocess_dict_of s =
     \<lparr>Paths = exp_path_list s, EEG_list = exp_eeg_list s, Smooth_EEG_list = smooth_exp_list s,
      Spect_list = wav_exp_list s, Normalized_Spect_list = norm_wav_exp_list s,
      Exp_matrix = preprocess_data s, Frame_idx = frame_index s,
      Experiment_idx = experminet_index s, Frame_amps = frame_amplitudes s,
      Rest_mask = test_rest_mask s, Boundary_mask = test_boundary_mask s\<rparr>"

section \<open>A test environment\<close>

text \<open>
  A small environment on which the constructor runs to its end: three electrodes, two
  recordings of six and four samples, a transform that returns its input, a constant
  threshold. The theorems below are instantiated on it.
\<close>

definition fl_sub :: "fl \<Rightarrow> fl \<Rightarrow> fl" where
  "fl_sub a b = (case (a, b) of (Fin u, Fin v) \<Rightarrow> Fin (u - v) | _ \<Rightarrow> NaN)"

definition ext_ex :: ext where
  "ext_ex =
     \<lparr>electrode_names = [''TP9'', ''AF7'', ''AF8''],
      label_gt_list = [((- 2, 4), CLASS 0, ''exp'')],
      read_csv = (\<lambda>p. if p = ''exp_a.csv''
                       then Inr [(''TP9'', [Fin 1, Fin 2, Fin 3, Fin 4, Fin 5, Fin 6]),
                                 (''AF7'', [Fin 6, Fin 5, Fin 4, Fin 3, Fin 2, Fin 1]),
                                 (''AF8'', [Fin 2, Fin 2, Fin 2, Fin 2, Fin 2, Fin 2])]
                       else if p = ''exp_b.csv''
                       then Inr [(''TP9'', [Fin 1, Fin 2, Fin 3, Fin 4]),
                                 (''AF7'', [Fin 4, NaN, Fin 2, Fin 1]),
                                 (''AF8'', [Fin 2, Fin 2, Fin 2, Fin 2])]
                       else Inl ExternalError),
      savgol_filter = (\<lambda>v w k. Inr v),
      find_wav = (\<lambda>m ch om fps lo hi. Inr (m, [Fin 1])),
      threshold_otsu = (\<lambda>amp n. Inr (Fin 3)),
      np_mean = (\<lambda>r. Fin 1),
      np_subtract = fl_sub,
      np_var = (\<lambda>r. Fin 1),
      np_sum = (\<lambda>r. hd r),
      np_log10 = (\<lambda>v. v),
      np_max = (\<lambda>r. Fin 2),
      np_divide = (\<lambda>a b. a)\<rparr>"

definition paths_ex :: "string list" where
  "paths_ex = [''exp_a.csv'', ''exp_b.csv'']"

definition cfg_raw :: config where
  "cfg_raw = default_config\<lparr>bound_len := 1, clip_len := 0, smooth := False,
     mean_center := False, normalize := False\<rparr>"

definition cfg_drop :: config where
  "cfg_drop = cfg_raw\<lparr>no_bounds := True, dump_rest := True\<rparr>"

section \<open>Facts about the stages\<close>

lemma ebind_Inr: "ebind m f = Inr y \<longleftrightarrow> (\<exists>v. m = Inr v \<and> f v = Inr y)"
  by (cases m) (auto simp: ebind_def)

lemma init_Inr:
  assumes "init x c paths = Inr s"
  obtains h sl fc fv fa eidx fidx rm bm d dc labels pd fi ei amps fam where
    "signal_stages x c paths = Inr (h, sl, fc, fv, fa)"
    "concatenate0 (exp_idx_parts (arrays_of h eeg_obj)) = Inr eidx"
    "concatenate0 (frame_idx_parts (arrays_of h eeg_obj)) = Inr fidx"
    "label_stages x c paths (arrays_of h eeg_obj) fa = Inr (rm, bm, d)"
    "concatenate1 (arrays_of h wav_obj) = Inr dc"
    "concatenate0 d = Inr labels"
    "length fidx = length eidx" "length eidx = shape1 dc"
    "mask_columns dc (data_mask_of (dump_rest c) (no_bounds c) labels) = Inr pd"
    "mask_select fidx (data_mask_of (dump_rest c) (no_bounds c) labels) = Inr fi"
    "mask_select eidx (data_mask_of (dump_rest c) (no_bounds c) labels) = Inr ei"
    "concatenate0 fa = Inr amps"
    "mask_select amps (data_mask_of (dump_rest c) (no_bounds c) labels) = Inr fam"
    "s = \<lparr>exp_path_list = paths, store = h, exp_eeg_list = eeg_obj,
            smooth_exp_list = sl, wav_exp_list = wav_obj, norm_wav_exp_list = wav_obj,
            freq_channels = fc, frame_var_list = fv, frame_amp_list = fa,
            exp_idx = eidx, frame_idx = fidx, test_rest_mask = rm,
            test_boundary_mask = bm, data_concat = dc, data_behav_concat = labels,
            data_mask = data_mask_of (dump_rest c) (no_bounds c) labels,
            preprocess_data = scrub pd, frame_index = fi,
            experminet_index = ei, frame_amplitudes = fam\<rparr>"
  using assms unfolding init_def
  by (auto simp: ebind_Inr Let_def split: prod.splits if_splits)

lemma length_data_mask_of: "length (data_mask_of dr nb ls) = length ls"
  by (simp add: data_mask_of_def Let_def)

lemma nth_data_mask_of:
  "f < length ls \<Longrightarrow>
   data_mask_of dr nb ls ! f = (\<not> (dr \<and> ls ! f = REST) \<and> \<not> (nb \<and> ls ! f = BOUNDARY))"
  by (auto simp: data_mask_of_def Let_def)

lemma mask_select_Inr: "mask_select xs bm = Inr ys \<Longrightarrow> length bm = length xs \<and> ys = compress bm xs"
  by (auto simp: mask_select_def split: if_splits)

lemma sfold_None:
  "sfold f xs s = (s', None) \<Longrightarrow> (\<And>x t t' r. f x t = (t', r) \<Longrightarrow> P t \<Longrightarrow> P t') \<Longrightarrow> P s \<Longrightarrow> P s'"
  by (induction xs arbitrary: s) (auto split: prod.splits option.splits)

lemma sfold_inv:
  "sfold f xs s = (s', r) \<Longrightarrow> (\<And>x t t' r. f x t = (t', r) \<Longrightarrow> P t \<Longrightarrow> P t') \<Longrightarrow> P s \<Longrightarrow> P s'"
  by (induction xs arbitrary: s) (auto split: prod.splits option.splits)

lemma assign_row_shape:
  "assign_row a i v = Inr m \<Longrightarrow> ncols m = ncols a \<and> shape0 m = shape0 a"
  by (auto simp: assign_row_def shape0_def split: if_splits)

lemma load_row_frame:
  assumes "load_row df els t0 t1 a i h = (h', r)"
  shows "pylists h' = pylists h \<and> length (arrays h') = length (arrays h) \<and>
         (\<forall>b. b \<noteq> a \<longrightarrow> arrays h' ! b = arrays h ! b) \<and>
         ncols (arrays h' ! a) = ncols (arrays h ! a) \<and> shape0 (arrays h' ! a) = shape0 (arrays h ! a)"
  using assms
  by (cases "a < length (arrays h)")
     (auto simp: load_row_def not_less list_update_beyond split: option.splits sum.splits dest: assign_row_shape)

lemma load_rows_frame:
  assumes "sfold (load_row df els t0 t1 a) js h = (h', r)"
  shows "pylists h' = pylists h \<and> length (arrays h') = length (arrays h) \<and>
         (\<forall>b. b \<noteq> a \<longrightarrow> arrays h' ! b = arrays h ! b) \<and>
         ncols (arrays h' ! a) = ncols (arrays h ! a) \<and> shape0 (arrays h' ! a) = shape0 (arrays h ! a)"
  using assms
proof (induction js arbitrary: h)
  case Nil
  then show ?case by simp
next
  case (Cons j js)
  obtain h1 r1 where s: "load_row df els t0 t1 a j h = (h1, r1)" by (cases "load_row df els t0 t1 a j h")
  note f = load_row_frame[OF s]
  show ?case
  proof (cases r1)
    case None
    with Cons.prems s have "sfold (load_row df els t0 t1 a) js h1 = (h', r)" by simp
    from Cons.IH[OF this] f show ?thesis by simp
  next
    case (Some e)
    with Cons.prems s have "h' = h1" by simp
    with f show ?thesis by simp
  qed
qed

lemma read_exp_cases:
  assumes "read_exp x t0 p (h, tfo) = ((h', tfo'), r)"
  shows "(\<exists>e. read_csv x p = Inl e \<and> h' = h \<and> tfo' = tfo \<and> r = Some e) \<or>
         (\<exists>df e. read_csv x p = Inr df \<and> df_length df = Inl e \<and> h' = h \<and> tfo' = tfo \<and> r = Some e) \<or>
         (\<exists>df n. read_csv x p = Inr df \<and> df_length df = Inr n \<and> tfo' = Some (resolve_tf tfo n) \<and>
            (if resolve_tf tfo n \<le> t0 then h' = h \<and> r = Some AssertionError
             else pylists h' = (pylists h)[eeg_obj := pylists h ! eeg_obj @ [length (arrays h)]] \<and>
                  length (arrays h') = length (arrays h) + 1 \<and>
                  (\<forall>b < length (arrays h). arrays h' ! b = arrays h ! b) \<and>
                  shape0 (arrays h' ! length (arrays h)) = length (electrode_names x) \<and>
                  shape1 (arrays h' ! length (arrays h)) = nat (resolve_tf tfo n - t0)))"
proof (cases "read_csv x p")
  case (Inl e)
  with assms show ?thesis by (simp add: read_exp_def)
next
  case df: (Inr df)
  show ?thesis
  proof (cases "df_length df")
    case (Inl e)
    with assms df show ?thesis by (simp add: read_exp_def)
  next
    case n: (Inr n)
    show ?thesis
    proof (cases "resolve_tf tfo n \<le> t0")
      case True
      with assms df n show ?thesis by (auto simp: read_exp_def Let_def)
    next
      case False
      define h1 where "h1 = append_new eeg_obj
        (np_zeros (length (electrode_names x)) (nat (resolve_tf tfo n - t0))) h"
      from assms df n False
      have s: "sfold (load_row df (electrode_names x) t0 (resolve_tf tfo n) (length (arrays h)))
                 [0..<length (electrode_names x)] h1 = (h', r)" and t: "tfo' = Some (resolve_tf tfo n)"
        by (auto simp: read_exp_def Let_def h1_def split: prod.splits)
      from load_rows_frame[OF s] t df n False show ?thesis
        by (auto simp: h1_def append_new_def nth_append np_zeros_def shape0_def shape1_def)
    qed
  qed
qed

lemma read_loop_None:
  assumes "sfold (read_exp x t0) paths (h, tfo) = ((h', tfo'), None)"
    and "eeg_obj < length (pylists h)"
  shows "pylists h' = (pylists h)[eeg_obj := pylists h ! eeg_obj @
             [length (arrays h)..<length (arrays h) + length paths]] \<and>
         length (arrays h') = length (arrays h) + length paths \<and>
         (\<forall>b < length (arrays h). arrays h' ! b = arrays h ! b) \<and>
         (\<forall>b. length (arrays h) \<le> b \<and> b < length (arrays h') \<longrightarrow>
              shape0 (arrays h' ! b) = length (electrode_names x) \<and> 0 < shape1 (arrays h' ! b))"
  using assms
proof (induction paths arbitrary: h tfo)
  case Nil
  then show ?case by simp
next
  case (Cons p ps)
  obtain h1 tfo1 r1 where s: "read_exp x t0 p (h, tfo) = ((h1, tfo1), r1)"
    by (metis surj_pair)
  with Cons.prems(1) have r1: "r1 = None"
    by (cases r1) auto
  with Cons.prems(1) s have rest: "sfold (read_exp x t0) ps (h1, tfo1) = ((h', tfo'), None)"
    by simp
  from read_exp_cases[OF s] r1 obtain df n where
    f: "pylists h1 = (pylists h)[eeg_obj := pylists h ! eeg_obj @ [length (arrays h)]]"
       "length (arrays h1) = length (arrays h) + 1"
       "\<forall>b < length (arrays h). arrays h1 ! b = arrays h ! b"
       "shape0 (arrays h1 ! length (arrays h)) = length (electrode_names x)"
       "shape1 (arrays h1 ! length (arrays h)) = nat (resolve_tf tfo n - t0)"
       "\<not> resolve_tf tfo n \<le> t0"
    by (auto split: if_splits)
  from f(1) Cons.prems(2) have l: "eeg_obj < length (pylists h1)" by simp
  note ih = Cons.IH[OF rest l]
  have a: "pylists h' = (pylists h)[eeg_obj := pylists h ! eeg_obj @
             [length (arrays h)..<length (arrays h) + length (p # ps)]]"
  proof -
    have u: "[length (arrays h)..<length (arrays h) + length (p # ps)] =
             length (arrays h) # [length (arrays h1)..<length (arrays h1) + length ps]"
    proof -
      have "length (arrays h) < length (arrays h) + length (p # ps)" by simp
      from upt_conv_Cons[OF this] show ?thesis by (simp add: f(2))
    qed
    have "pylists h' = (pylists h1)[eeg_obj := pylists h1 ! eeg_obj @
             [length (arrays h1)..<length (arrays h1) + length ps]]"
      using ih by blast
    also have "\<dots> = (pylists h)[eeg_obj := (pylists h ! eeg_obj @ [length (arrays h)]) @
             [length (arrays h1)..<length (arrays h1) + length ps]]"
      using Cons.prems(2) by (simp only: f(1) list_update_overwrite nth_list_update_eq)
    finally show ?thesis
      by (simp only: u append_assoc append_Cons append_Nil)
  qed
  have b: "length (arrays h') = length (arrays h) + length (p # ps)"
    using ih f(2) by simp
  have c: "\<forall>b < length (arrays h). arrays h' ! b = arrays h ! b"
    using ih f(2,3) by simp
  have d: "\<forall>b. length (arrays h) \<le> b \<and> b < length (arrays h') \<longrightarrow>
              shape0 (arrays h' ! b) = length (electrode_names x) \<and> 0 < shape1 (arrays h' ! b)"
  proof (intro allI impI)
    fix b assume b: "length (arrays h) \<le> b \<and> b < length (arrays h')"
    show "shape0 (arrays h' ! b) = length (electrode_names x) \<and> 0 < shape1 (arrays h' ! b)"
    proof (cases "b = length (arrays h)")
      case True
      with ih f(2) have "arrays h' ! b = arrays h1 ! b" by simp
      with True f(4,5,6) show ?thesis by simp
    next
      case False
      with b f(2) have "length (arrays h1) \<le> b \<and> b < length (arrays h')" by simp
      with ih show ?thesis by blast
    qed
  qed
  from a b c d show ?case by blast
qed

lemma read_data_None:
  assumes "read_data x t0 tfo paths = ((h, tfo'), None)"
  shows "pylists h = [[0..<length paths], [], []] \<and> length (arrays h) = length paths \<and>
         (\<forall>b < length paths. shape0 (arrays h ! b) = length (electrode_names x) \<and>
                               0 < shape1 (arrays h ! b))"
proof -
  from assms have "sfold (read_exp x t0) paths (heap0, tfo) = ((h, tfo'), None)"
    by (simp add: read_data_def)
  from read_loop_None[OF this] show ?thesis
    by (simp add: heap0_def eeg_obj_def)
qed

lemma efold_append: "efold f (xs @ ys) s = ebind (efold f xs s) (efold f ys)"
  by (induction xs arbitrary: s) (auto simp: ebind_def split: sum.splits)

lemma efold_single: "efold f [x] s = f x s"
  by (cases "f x s") auto

lemma efold_upt_Suc:
  "efold f [0..<Suc n] s = Inr s' \<longleftrightarrow> (\<exists>t. efold f [0..<n] s = Inr t \<and> f n t = Inr s')"
proof -
  have "[0..<Suc n] = [0..<n] @ [n]" by simp
  then show ?thesis by (simp only: efold_append ebind_Inr efold_single)
qed

lemma smooth_row_frame:
  assumes "smooth_row x i j h = Inr h'"
  shows "pylists h' = pylists h \<and> length (arrays h') = length (arrays h) \<and>
         (\<forall>b. b \<noteq> pylists h ! smooth_obj ! i \<longrightarrow> arrays h' ! b = arrays h ! b)"
  using assms by (auto simp: smooth_row_def split: sum.splits)

lemma smooth_rows_frame:
  assumes "efold (smooth_row x i) js h = Inr h'"
  shows "pylists h' = pylists h \<and> length (arrays h') = length (arrays h) \<and>
         (\<forall>b. b \<noteq> pylists h ! smooth_obj ! i \<longrightarrow> arrays h' ! b = arrays h ! b)"
  using assms
proof (induction js arbitrary: h)
  case Nil
  then show ?case by simp
next
  case (Cons j js)
  then obtain h1 where s: "smooth_row x i j h = Inr h1" and r: "efold (smooth_row x i) js h1 = Inr h'"
    by (auto split: sum.splits)
  from smooth_row_frame[OF s] Cons.IH[OF r] show ?case by simp
qed

lemma smooth_exp_frame:
  assumes "smooth_exp x i h = Inr h'" and "smooth_obj < length (pylists h)"
    and "length (pylists h ! smooth_obj) = i"
  shows "pylists h' = (pylists h)[smooth_obj := pylists h ! smooth_obj @ [length (arrays h)]] \<and>
         length (arrays h') = length (arrays h) + 1 \<and>
         (\<forall>b < length (arrays h). arrays h' ! b = arrays h ! b)"
proof -
  define h1 where "h1 = append_new smooth_obj (np_zeros_like (array_at h eeg_obj i)) h"
  from assms(1) have "efold (smooth_row x i) [0..<length (electrode_names x)] h1 = Inr h'"
    by (simp add: smooth_exp_def h1_def)
  note f = smooth_rows_frame[OF this]
  have a: "pylists h1 ! smooth_obj ! i = length (arrays h)"
    using assms(2) unfolding assms(3)[symmetric] by (simp add: h1_def append_new_def)
  from f a show ?thesis
    by (auto simp: h1_def append_new_def nth_append)
qed

lemma smooth_loop_frame:
  assumes "efold (smooth_exp x) [0..<n] h = Inr h'" and "smooth_obj < length (pylists h)"
    and "pylists h ! smooth_obj = []"
  shows "pylists h' = (pylists h)[smooth_obj := [length (arrays h)..<length (arrays h) + n]] \<and>
         length (arrays h') = length (arrays h) + n \<and>
         (\<forall>b < length (arrays h). arrays h' ! b = arrays h ! b)"
  using assms(1)
proof (induction n arbitrary: h')
  case 0
  with assms(2,3) show ?case by (simp add: list_update_same_conv[THEN iffD2])
next
  case (Suc n)
  from Suc.prems[unfolded efold_upt_Suc]
  obtain t where t: "efold (smooth_exp x) [0..<n] h = Inr t" and s: "smooth_exp x n t = Inr h'"
    by blast
  note ih = Suc.IH[OF t]
  have "smooth_obj < length (pylists t)" "length (pylists t ! smooth_obj) = n"
    using ih assms(2) by simp_all
  from smooth_exp_frame[OF s this] ih assms(2) show ?case
    by simp
qed

lemma center_step:
  "(map c (take k rs) @ drop k rs)[k := c ((map c (take k rs) @ drop k rs) ! k)] =
   map c (take (Suc k) rs) @ drop (Suc k) rs"
proof (cases "k < length rs")
  case True
  then have "(map c (take k rs) @ drop k rs) ! k = rs ! k"
    by (simp add: nth_append)
  moreover have "(map c (take k rs) @ drop k rs)[k := c (rs ! k)] =
      map c (take (Suc k) rs) @ drop (Suc k) rs"
    using True by (simp add: list_update_append take_Suc_conv_app_nth Cons_nth_drop_Suc[symmetric])
  ultimately show ?thesis by simp
next
  case False
  then show ?thesis by (simp add: list_update_beyond)
qed

lemma center_rows_fold:
  "fold (center_row x sl i) [0..<k] h =
     h\<lparr>arrays := (arrays h)[pylists h ! sl ! i :=
          (arrays h ! (pylists h ! sl ! i))\<lparr>rows :=
             map (center x) (take k (rows (arrays h ! (pylists h ! sl ! i)))) @
             drop k (rows (arrays h ! (pylists h ! sl ! i)))\<rparr>]\<rparr>"
proof (induction k)
  case 0
  show ?case by simp
next
  case (Suc k)
  have "fold (center_row x sl i) [0..<Suc k] h =
        center_row x sl i k (fold (center_row x sl i) [0..<k] h)"
    by simp
  also note Suc
  also have "center_row x sl i k (h\<lparr>arrays := (arrays h)[pylists h ! sl ! i :=
          (arrays h ! (pylists h ! sl ! i))\<lparr>rows :=
             map (center x) (take k (rows (arrays h ! (pylists h ! sl ! i)))) @
             drop k (rows (arrays h ! (pylists h ! sl ! i)))\<rparr>]\<rparr>) =
     h\<lparr>arrays := (arrays h)[pylists h ! sl ! i :=
          (arrays h ! (pylists h ! sl ! i))\<lparr>rows :=
             map (center x) (take (Suc k) (rows (arrays h ! (pylists h ! sl ! i)))) @
             drop (Suc k) (rows (arrays h ! (pylists h ! sl ! i)))\<rparr>]\<rparr>"
  proof (cases "pylists h ! sl ! i < length (arrays h)")
    case True
    then show ?thesis
      by (simp add: center_row_def Let_def center_step del: take_Suc drop_Suc)
  next
    case False
    then show ?thesis
      by (simp add: center_row_def Let_def list_update_beyond)
  qed
  finally show ?case .
qed

lemma center_exp:
  assumes "a = pylists h ! sl ! i" and "shape0 (arrays h ! a) \<le> k"
  shows "fold (center_row x sl i) [0..<k] h = h\<lparr>arrays := (arrays h)[a := center_array x (arrays h ! a)]\<rparr>"
  using assms by (simp add: center_rows_fold center_array_def shape0_def)

lemma center_loop:
  assumes "distinct (take n (pylists h ! sl))" and "n \<le> length (pylists h ! sl)"
    and "\<forall>a \<in> set (take n (pylists h ! sl)). a < length (arrays h) \<and> shape0 (arrays h ! a) \<le> k"
  shows "fold (\<lambda>i. fold (center_row x sl i) [0..<k]) [0..<n] h =
           h\<lparr>arrays := map (\<lambda>b. if b \<in> set (take n (pylists h ! sl))
                                   then center_array x (arrays h ! b) else arrays h ! b)
                             [0..<length (arrays h)]\<rparr>"
  using assms
proof (induction n)
  case 0
  show ?case by (simp add: map_nth)
next
  case (Suc n)
  define L where "L = pylists h ! sl"
  define N where "N = length (arrays h)"
  define f where "f = (\<lambda>m b. if b \<in> set (take m L) then center_array x (arrays h ! b) else arrays h ! b)"
  define hn where "hn = h\<lparr>arrays := map (f n) [0..<N]\<rparr>"
  from Suc.prems(2) have n: "n < length L" by (simp add: L_def)
  then have tk: "take (Suc n) L = take n L @ [L ! n]"
    by (simp add: take_Suc_conv_app_nth)
  from Suc.prems(1) have notin: "L ! n \<notin> set (take n L)"
    unfolding L_def[symmetric] tk by simp
  from Suc.prems(3) have a: "L ! n < N" "shape0 (arrays h ! (L ! n)) \<le> k"
    unfolding L_def[symmetric] tk N_def by simp_all
  have p1: "distinct (take n (pylists h ! sl))"
    using Suc.prems(1) unfolding L_def[symmetric] tk by simp
  have p2: "n \<le> length (pylists h ! sl)" using Suc.prems(2) by simp
  have p3: "\<forall>a \<in> set (take n (pylists h ! sl)). a < length (arrays h) \<and> shape0 (arrays h ! a) \<le> k"
    using Suc.prems(3) unfolding L_def[symmetric] tk by simp
  have ih: "fold (\<lambda>i. fold (center_row x sl i) [0..<k]) [0..<n] h = hn"
    unfolding hn_def f_def L_def N_def by (rule Suc.IH[OF p1 p2 p3])
  have hn_a: "arrays hn ! (L ! n) = arrays h ! (L ! n)"
    using a(1) notin by (simp add: hn_def f_def)
  have hn_p: "pylists hn ! sl ! n = L ! n"
    by (simp add: hn_def L_def)
  have "fold (\<lambda>i. fold (center_row x sl i) [0..<k]) [0..<Suc n] h =
        fold (center_row x sl n) [0..<k] hn"
    by (simp only: upt_Suc_append[OF le0] fold_append fold_simps comp_apply id_apply ih)
  also have "\<dots> = hn\<lparr>arrays := (arrays hn)[L ! n := center_array x (arrays hn ! (L ! n))]\<rparr>"
    by (rule center_exp) (simp_all only: hn_p hn_a a(2))
  also have "\<dots> = h\<lparr>arrays := (map (f n) [0..<N])[L ! n := center_array x (arrays h ! (L ! n))]\<rparr>"
    by (simp only: hn_a) (simp add: hn_def)
  also have "(map (f n) [0..<N])[L ! n := center_array x (arrays h ! (L ! n))] = map (f (Suc n)) [0..<N]"
  proof (rule nth_equalityI)
    show "length ((map (f n) [0..<N])[L ! n := center_array x (arrays h ! (L ! n))]) =
          length (map (f (Suc n)) [0..<N])" by simp
  next
    fix b assume "b < length ((map (f n) [0..<N])[L ! n := center_array x (arrays h ! (L ! n))])"
    then have b: "b < N" by simp
    show "(map (f n) [0..<N])[L ! n := center_array x (arrays h ! (L ! n))] ! b =
          map (f (Suc n)) [0..<N] ! b"
    proof (cases "b = L ! n")
      case True
      with b show ?thesis by (simp add: f_def tk)
    next
      case False
      with b show ?thesis by (simp add: f_def tk)
    qed
  qed
  finally show ?case
    unfolding f_def L_def N_def .
qed

lemma wavelet_exp_Inr:
  assumes "wavelet_exp x c sl i (h, fc) = Inr (h', fc')"
  shows "\<exists>w f. find_wav x (np_transpose (array_at h sl i)) (num_channels c) 5 (samp_rate c)
                  (min_frequency c) (max_frequency c) = Inr (w, f) \<and>
               h' = append_new wav_obj (np_transpose w) h \<and> fc' = Some f"
  using assms by (auto simp: wavelet_exp_def split: sum.splits prod.splits)

lemma wavelet_loop:
  assumes "efold (wavelet_exp x c sl) [0..<n] (h, None) = Inr (h', fc)"
    and "wav_obj < length (pylists h)" and "sl < length (pylists h)" and "sl \<noteq> wav_obj"
    and "n \<le> length (pylists h ! sl)"
    and "\<forall>a \<in> set (pylists h ! sl). a < length (arrays h)"
  shows "pylists h' = (pylists h)[wav_obj := pylists h ! wav_obj @
            [length (arrays h)..<length (arrays h) + n]] \<and>
         length (arrays h') = length (arrays h) + n \<and>
         (\<forall>b < length (arrays h). arrays h' ! b = arrays h ! b) \<and>
         (\<forall>i < n. \<exists>w f. find_wav x (np_transpose (array_at h sl i)) (num_channels c) 5
               (samp_rate c) (min_frequency c) (max_frequency c) = Inr (w, f) \<and>
               arrays h' ! (length (arrays h) + i) = np_transpose w) \<and>
         (fc = None \<longleftrightarrow> n = 0)"
  using assms(1,5)
proof (induction n arbitrary: h' fc)
  case 0
  with assms(2) show ?case by (simp add: list_update_same_conv[THEN iffD2])
next
  case (Suc n)
  from Suc.prems(1)[unfolded efold_upt_Suc]
  obtain t where t: "efold (wavelet_exp x c sl) [0..<n] (h, None) = Inr t"
    and s: "wavelet_exp x c sl n t = Inr (h', fc)"
    by blast
  obtain ht fct where tt: "t = (ht, fct)" by (cases t)
  from Suc.prems(2) have nle: "n \<le> length (pylists h ! sl)" and nlt: "n < length (pylists h ! sl)"
    by simp_all
  note ih = Suc.IH[OF t[unfolded tt] nle]
  from wavelet_exp_Inr[OF s[unfolded tt]] obtain w f where
    fw: "find_wav x (np_transpose (array_at ht sl n)) (num_channels c) 5 (samp_rate c)
           (min_frequency c) (max_frequency c) = Inr (w, f)"
    and h': "h' = append_new wav_obj (np_transpose w) ht" and fc: "fc = Some f"
    by blast
  have psl: "pylists ht ! sl = pylists h ! sl"
    using ih assms(3,4) by simp
  have an: "pylists h ! sl ! n < length (arrays h)"
    using assms(6) nlt by simp
  have "arrays ht ! (pylists h ! sl ! n) = arrays h ! (pylists h ! sl ! n)"
    using ih an by blast
  then have same: "array_at ht sl n = array_at h sl n"
    by (simp only: array_at_def psl)
  have a: "pylists h' = (pylists h)[wav_obj := pylists h ! wav_obj @
            [length (arrays h)..<length (arrays h) + Suc n]]"
    using ih assms(2) by (simp add: h' append_new_def)
  have b: "length (arrays h') = length (arrays h) + Suc n"
    using ih by (simp add: h' append_new_def)
  have c: "\<forall>b < length (arrays h). arrays h' ! b = arrays h ! b"
    using ih by (simp add: h' append_new_def nth_append)
  have d: "\<forall>i < Suc n. \<exists>w f. find_wav x (np_transpose (array_at h sl i)) (num_channels c) 5
               (samp_rate c) (min_frequency c) (max_frequency c) = Inr (w, f) \<and>
               arrays h' ! (length (arrays h) + i) = np_transpose w"
  proof (intro allI impI)
    fix i assume i: "i < Suc n"
    show "\<exists>w f. find_wav x (np_transpose (array_at h sl i)) (num_channels c) 5
               (samp_rate c) (min_frequency c) (max_frequency c) = Inr (w, f) \<and>
               arrays h' ! (length (arrays h) + i) = np_transpose w"
    proof (cases "i = n")
      case True
      have "arrays h' ! (length (arrays h) + n) = np_transpose w"
        using ih by (simp add: h' append_new_def nth_append)
      with fw same True show ?thesis by auto
    next
      case False
      with i have "i < n" by simp
      with ih obtain w' f' where
        "find_wav x (np_transpose (array_at h sl i)) (num_channels c) 5
               (samp_rate c) (min_frequency c) (max_frequency c) = Inr (w', f')"
        "arrays ht ! (length (arrays h) + i) = np_transpose w'"
        by blast
      moreover have "arrays h' ! (length (arrays h) + i) = arrays ht ! (length (arrays h) + i)"
        using ih \<open>i < n\<close> by (simp add: h' append_new_def nth_append)
      ultimately show ?thesis by auto
    qed
  qed
  from a b c d fc show ?case by simp
qed

lemma normalize_exp_Inr:
  assumes "normalize_exp x wl nl i h = Inr h'"
  shows "\<exists>q. normalized x (array_at h wl i) = Inr q \<and>
             h' = h\<lparr>arrays := arrays h @ [q],
                    pylists := (pylists h)[nl := (pylists h ! nl)[i := length (arrays h)]]\<rparr>"
  using assms by (auto simp: normalize_exp_def ebind_Inr)

lemma upt_drop_step:
  assumes "k < length xs"
  shows "([L..<L + k] @ drop k xs)[k := L + k] = [L..<L + Suc k] @ drop (Suc k) xs"
proof -
  have "drop k xs = xs ! k # drop (Suc k) xs"
    using assms by (simp add: Cons_nth_drop_Suc)
  then have "([L..<L + k] @ drop k xs)[k := L + k] = [L..<L + k] @ (L + k) # drop (Suc k) xs"
    by (simp add: list_update_append)
  then show ?thesis by simp
qed

lemma normalize_loop:
  assumes "efold (normalize_exp x wav_obj wav_obj) [0..<k] h = Inr h'"
    and "wav_obj < length (pylists h)"
    and "k \<le> length (pylists h ! wav_obj)"
    and "\<forall>a \<in> set (pylists h ! wav_obj). a < length (arrays h)"
  shows "pylists h' = (pylists h)[wav_obj := [length (arrays h)..<length (arrays h) + k] @
            drop k (pylists h ! wav_obj)] \<and>
         length (arrays h') = length (arrays h) + k \<and>
         (\<forall>b < length (arrays h). arrays h' ! b = arrays h ! b) \<and>
         (\<forall>i < k. normalized x (array_at h wav_obj i) = Inr (arrays h' ! (length (arrays h) + i)))"
  using assms(1,3)
proof (induction k arbitrary: h')
  case 0
  with assms(2) show ?case by (simp add: list_update_same_conv[THEN iffD2])
next
  case (Suc k)
  define L where "L = length (arrays h)"
  define old where "old = pylists h ! wav_obj"
  from Suc.prems(1)[unfolded efold_upt_Suc]
  obtain ht where t: "efold (normalize_exp x wav_obj wav_obj) [0..<k] h = Inr ht"
    and s: "normalize_exp x wav_obj wav_obj k ht = Inr h'"
    by blast
  from Suc.prems(2) have kle: "k \<le> length (pylists h ! wav_obj)" and klt: "k < length old"
    by (simp_all add: old_def)
  note ih = Suc.IH[OF t kle, folded L_def old_def]
  from normalize_exp_Inr[OF s] obtain q where
    q: "normalized x (array_at ht wav_obj k) = Inr q"
    and h': "h' = ht\<lparr>arrays := arrays ht @ [q],
        pylists := (pylists ht)[wav_obj := (pylists ht ! wav_obj)[k := length (arrays ht)]]\<rparr>"
    by blast
  have pw: "pylists ht ! wav_obj = [L..<L + k] @ drop k old"
    using ih assms(2) by simp
  have pk: "pylists ht ! wav_obj ! k = old ! k"
    using klt by (simp add: pw nth_append)
  have "old ! k < L"
    using assms(4) klt by (simp add: old_def L_def)
  then have "arrays ht ! (old ! k) = arrays h ! (old ! k)"
    using ih by (simp add: L_def)
  then have same: "array_at ht wav_obj k = array_at h wav_obj k"
    by (simp only: array_at_def pk old_def)
  have a: "pylists h' = (pylists h)[wav_obj := [L..<L + Suc k] @ drop (Suc k) old]"
  proof -
    have lt: "length (arrays ht) = L + k" using ih by blast
    have "pylists h' = (pylists ht)[wav_obj := (pylists ht ! wav_obj)[k := length (arrays ht)]]"
      by (simp add: h')
    also have "\<dots> = (pylists ht)[wav_obj := ([L..<L + k] @ drop k old)[k := L + k]]"
      by (simp only: pw lt)
    also have "\<dots> = (pylists ht)[wav_obj := [L..<L + Suc k] @ drop (Suc k) old]"
      by (simp only: upt_drop_step[OF klt])
    also have "\<dots> = (pylists h)[wav_obj := [L..<L + Suc k] @ drop (Suc k) old]"
      using ih by (simp only: list_update_overwrite)
    finally show ?thesis .
  qed
  have b: "length (arrays h') = L + Suc k"
    using ih by (simp add: h')
  have c: "\<forall>b < L. arrays h' ! b = arrays h ! b"
    using ih by (simp add: h' nth_append)
  have d: "\<forall>i < Suc k. normalized x (array_at h wav_obj i) = Inr (arrays h' ! (L + i))"
  proof (intro allI impI)
    fix i assume i: "i < Suc k"
    show "normalized x (array_at h wav_obj i) = Inr (arrays h' ! (L + i))"
    proof (cases "i = k")
      case True
      have "arrays h' ! (L + k) = q"
        using ih by (simp add: h' nth_append)
      with q same True show ?thesis by simp
    next
      case False
      with i have ik: "i < k" by simp
      have "arrays h' ! (L + i) = arrays ht ! (L + i)"
        using ih ik by (simp add: h' nth_append)
      with ih ik show ?thesis by simp
    qed
  qed
  from a b c d show ?case
    unfolding L_def old_def by blast
qed

lemma center_exp_frame:
  "pylists (fold (center_row x sl i) [0..<k] h) = pylists h \<and>
   length (arrays (fold (center_row x sl i) [0..<k] h)) = length (arrays h) \<and>
   (\<forall>b. b \<noteq> pylists h ! sl ! i \<longrightarrow> arrays (fold (center_row x sl i) [0..<k] h) ! b = arrays h ! b)"
  by (simp add: center_rows_fold)

lemma center_loop_frame:
  assumes "n \<le> length (pylists h ! sl)"
  shows "pylists (fold (\<lambda>i. fold (center_row x sl i) [0..<k]) [0..<n] h) = pylists h \<and>
   length (arrays (fold (\<lambda>i. fold (center_row x sl i) [0..<k]) [0..<n] h)) = length (arrays h) \<and>
   (\<forall>b. b \<notin> set (pylists h ! sl) \<longrightarrow>
        arrays (fold (\<lambda>i. fold (center_row x sl i) [0..<k]) [0..<n] h) ! b = arrays h ! b)"
  using assms
proof (induction n)
  case 0
  show ?case by simp
next
  case (Suc n)
  define hn where "hn = fold (\<lambda>i. fold (center_row x sl i) [0..<k]) [0..<n] h"
  from Suc have ih: "pylists hn = pylists h" "length (arrays hn) = length (arrays h)"
    "\<forall>b. b \<notin> set (pylists h ! sl) \<longrightarrow> arrays hn ! b = arrays h ! b"
    by (simp_all add: hn_def)
  have st: "fold (\<lambda>i. fold (center_row x sl i) [0..<k]) [0..<Suc n] h =
            fold (center_row x sl n) [0..<k] hn"
    by (simp add: hn_def)
  from Suc.prems have "pylists h ! sl ! n \<in> set (pylists h ! sl)" by simp
  with center_exp_frame[of x sl n k hn] ih show ?case
    unfolding st by (metis)
qed

lemma mean_centering_frame:
  assumes "n \<le> length (pylists h ! sl)"
  shows "pylists (mean_centering x mc sl n h) = pylists h \<and>
   length (arrays (mean_centering x mc sl n h)) = length (arrays h) \<and>
   (\<forall>b. b \<notin> set (pylists h ! sl) \<longrightarrow> arrays (mean_centering x mc sl n h) ! b = arrays h ! b)"
  using center_loop_frame[OF assms] by (simp add: mean_centering_def)

lemma signal_stages_Inr:
  assumes "signal_stages x c paths = Inr (h, sl, fc, fv, fa)"
  obtains h1 tfo' h2 h4 where
    "read_data x (ti c) (tf c) paths = ((h1, tfo'), None)"
    "smoothing x (smooth c) (length paths) h1 = Inr (h2, sl)"
    "wavelets x c sl (length paths) (mean_centering x (mean_center c) sl (length paths) h2) = Inr (h4, fc)"
    "fv = map (frame_var x) (arrays_of h4 wav_obj)"
    "fa = map (frame_amp x) (arrays_of h4 wav_obj)"
    "normalization x (normalize c) wav_obj wav_obj h4 = Inr h"
  using assms unfolding signal_stages_def
  by (auto simp: ebind_Inr Let_def split: prod.splits option.splits)

lemma smoothing_Inr:
  assumes "smoothing x sm n h1 = Inr (h2, sl)" and "pylists h1 = [[0..<n], [], []]"
    and "length (arrays h1) = n"
  shows "sl = (if sm then smooth_obj else eeg_obj) \<and>
         pylists h2 = [[0..<n], if sm then [n..<n + n] else [], []] \<and>
         length (arrays h2) = (if sm then n + n else n) \<and>
         (\<forall>b < n. arrays h2 ! b = arrays h1 ! b)"
proof (cases sm)
  case False
  with assms show ?thesis by (simp add: smoothing_def)
next
  case True
  with assms(1) have e: "efold (smooth_exp x) [0..<n] h1 = Inr h2" and sl: "sl = smooth_obj"
    by (auto simp: smoothing_def ebind_Inr)
  have "smooth_obj < length (pylists h1)" "pylists h1 ! smooth_obj = []"
    by (simp_all add: assms(2) smooth_obj_def)
  from smooth_loop_frame[OF e this] True sl show ?thesis
    by (simp add: assms(2,3) smooth_obj_def)
qed

lemma wavelets_Inr:
  assumes "wavelets x c sl n h = Inr (h', f)"
  shows "\<exists>fc. efold (wavelet_exp x c sl) [0..<n] (h, None) = Inr (h', Some f)"
  using assms by (auto simp: wavelets_def ebind_Inr split: option.splits)

lemma length_frame_amp: "length (frame_amp x m) = ncols m"
  by (simp add: frame_amp_def columns_def)

lemma normalized_ncols: "normalized x m = Inr q \<Longrightarrow> ncols q = ncols m \<and> shape0 q = shape0 m"
  by (auto simp: normalized_def shape0_def split: if_splits)

text \<open>The store after the signal stages, with every intermediate store.\<close>

lemma signal_stages_heap:
  assumes "signal_stages x c paths = Inr (h, sl, fc, fv, fa)"
  obtains h1 tfo' h2 h4 where
    "read_data x (ti c) (tf c) paths = ((h1, tfo'), None)"
    "smoothing x (smooth c) (length paths) h1 = Inr (h2, sl)"
    "wavelets x c sl (length paths) (mean_centering x (mean_center c) sl (length paths) h2) = Inr (h4, fc)"
    "normalization x (normalize c) wav_obj wav_obj h4 = Inr h"
    "fv = map (frame_var x) (arrays_of h4 wav_obj)"
    "fa = map (frame_amp x) (arrays_of h4 wav_obj)"
    "0 < length paths"
    "sl = (if smooth c then smooth_obj else eeg_obj)"
    "pylists h1 = [[0..<length paths], [], []]" "length (arrays h1) = length paths"
    "pylists h2 = [[0..<length paths],
        if smooth c then [length paths..<length paths + length paths] else [], []]"
    "length (arrays h2) = (if smooth c then length paths + length paths else length paths)"
    "\<forall>b < length paths. arrays h2 ! b = arrays h1 ! b"
    "pylists h4 = [[0..<length paths],
        if smooth c then [length paths..<length paths + length paths] else [],
        [length (arrays h2)..<length (arrays h2) + length paths]]"
    "length (arrays h4) = length (arrays h2) + length paths"
    "\<forall>b < length (arrays h2).
        arrays h4 ! b = arrays (mean_centering x (mean_center c) sl (length paths) h2) ! b"
    "\<forall>i < length paths. \<exists>w f.
        find_wav x (np_transpose (array_at (mean_centering x (mean_center c) sl (length paths) h2) sl i))
          (num_channels c) 5 (samp_rate c) (min_frequency c) (max_frequency c) = Inr (w, f) \<and>
        arrays h4 ! (length (arrays h2) + i) = np_transpose w"
proof -
  define n where "n = length paths"
  from signal_stages_Inr[OF assms] obtain h1 tfo' h2 h4 where
    rd: "read_data x (ti c) (tf c) paths = ((h1, tfo'), None)" and
    sm: "smoothing x (smooth c) n h1 = Inr (h2, sl)" and
    wv: "wavelets x c sl n (mean_centering x (mean_center c) sl n h2) = Inr (h4, fc)" and
    fv: "fv = map (frame_var x) (arrays_of h4 wav_obj)" and
    fa: "fa = map (frame_amp x) (arrays_of h4 wav_obj)" and
    nm: "normalization x (normalize c) wav_obj wav_obj h4 = Inr h"
    unfolding n_def by blast
  define h3 where "h3 = mean_centering x (mean_center c) sl n h2"
  from read_data_None[OF rd] have h1: "pylists h1 = [[0..<n], [], []]" "length (arrays h1) = n"
    by (simp_all add: n_def)
  from smoothing_Inr[OF sm h1] have
    sl: "sl = (if smooth c then smooth_obj else eeg_obj)" and
    h2: "pylists h2 = [[0..<n], if smooth c then [n..<n + n] else [], []]"
        "length (arrays h2) = (if smooth c then n + n else n)"
        "\<forall>b < n. arrays h2 ! b = arrays h1 ! b"
    by simp_all
  have nsl: "n \<le> length (pylists h2 ! sl)"
    by (simp add: h2 sl smooth_obj_def eeg_obj_def)
  from mean_centering_frame[OF nsl, of x "mean_center c"] have
    h3: "pylists h3 = pylists h2" "length (arrays h3) = length (arrays h2)"
    by (simp_all add: h3_def)
  from wavelets_Inr[OF wv] have
    e: "efold (wavelet_exp x c sl) [0..<n] (h3, None) = Inr (h4, Some fc)"
    by (simp add: h3_def)
  have pre: "wav_obj < length (pylists h3)" "sl < length (pylists h3)" "sl \<noteq> wav_obj"
    "n \<le> length (pylists h3 ! sl)" "\<forall>a \<in> set (pylists h3 ! sl). a < length (arrays h3)"
    by (auto simp: h3 h2 sl wav_obj_def smooth_obj_def eeg_obj_def)
  note w = wavelet_loop[OF e pre]
  from w have npos: "0 < n" by simp
  have h4p: "pylists h4 = [[0..<n], if smooth c then [n..<n + n] else [],
        [length (arrays h2)..<length (arrays h2) + n]]"
    using w by (simp add: h3 h2 wav_obj_def)
  have h4l: "length (arrays h4) = length (arrays h2) + n"
    using w by (simp add: h3)
  have h4o: "\<forall>b < length (arrays h2). arrays h4 ! b = arrays h3 ! b"
    using w by (simp add: h3)
  have h4w: "\<forall>i < n. \<exists>w f. find_wav x (np_transpose (array_at h3 sl i))
          (num_channels c) 5 (samp_rate c) (min_frequency c) (max_frequency c) = Inr (w, f) \<and>
        arrays h4 ! (length (arrays h2) + i) = np_transpose w"
    using w by (simp add: h3)
  show ?thesis
    by (rule that[OF rd sm[unfolded n_def] wv[unfolded n_def] nm fv fa npos[unfolded n_def] sl
          h1[unfolded n_def] h2[unfolded n_def] h4p[unfolded n_def] h4l[unfolded n_def]
          h4o[unfolded h3_def n_def] h4w[unfolded h3_def n_def]])
qed

lemma normalization_Inr:
  assumes "normalization x nm wav_obj wav_obj h4 = Inr h"
    and "pylists h4 = [A, B, [L..<L + n]]" and "length (arrays h4) = L + n"
  shows "pylists h = [A, B, if nm then [L + n..<L + n + n] else [L..<L + n]] \<and>
         length (arrays h) = (if nm then L + n + n else L + n) \<and>
         (\<forall>b < L + n. arrays h ! b = arrays h4 ! b) \<and>
         (nm \<longrightarrow> (\<forall>i < n. normalized x (arrays h4 ! (L + i)) = Inr (arrays h ! (L + n + i))))"
proof (cases nm)
  case False
  with assms show ?thesis by (simp add: normalization_def)
next
  case True
  have wl: "pylists h4 ! wav_obj = [L..<L + n]" by (simp add: assms(2) wav_obj_def)
  from True assms(1) have e: "efold (normalize_exp x wav_obj wav_obj) [0..<n] h4 = Inr h"
    by (simp add: normalization_def wl)
  have pre: "wav_obj < length (pylists h4)" "n \<le> length (pylists h4 ! wav_obj)"
    "\<forall>a \<in> set (pylists h4 ! wav_obj). a < length (arrays h4)"
    by (simp_all add: wl assms(3)) (simp add: assms(2) wav_obj_def)
  note f = normalize_loop[OF e pre]
  have a: "pylists h = [A, B, [L + n..<L + n + n]]"
    using f by (simp add: wl assms(2,3) wav_obj_def)
  have b: "\<forall>i < n. normalized x (arrays h4 ! (L + i)) = Inr (arrays h ! (L + n + i))"
    using f by (simp add: array_at_def wl assms(3))
  from a b f True show ?thesis by (simp add: assms(3))
qed

text \<open>The lists and lengths that the later stages rely on.\<close>

lemma signal_stages_lists:
  assumes "signal_stages x c paths = Inr (h, sl, fc, fv, fa)"
  shows "0 < length paths \<and> pylists h ! eeg_obj = [0..<length paths] \<and>
         length (arrays_of h eeg_obj) = length paths \<and>
         length (arrays_of h wav_obj) = length paths \<and>
         length fa = length paths \<and> length fv = length paths \<and>
         sl = (if smooth c then smooth_obj else eeg_obj) \<and>
         (\<forall>i < length paths. length (fa ! i) = ncols (arrays_of h wav_obj ! i))"
proof (rule signal_stages_heap[OF assms])
  fix h1 tfo' h2 h4
  define n where "n = length paths"
  define L where "L = length (arrays h2)"
  assume nm: "normalization x (normalize c) wav_obj wav_obj h4 = Inr h"
    and fv: "fv = map (frame_var x) (arrays_of h4 wav_obj)"
    and fa: "fa = map (frame_amp x) (arrays_of h4 wav_obj)"
    and npos: "0 < length paths"
    and sl: "sl = (if smooth c then smooth_obj else eeg_obj)"
    and h4p: "pylists h4 = [[0..<length paths],
        if smooth c then [length paths..<length paths + length paths] else [],
        [length (arrays h2)..<length (arrays h2) + length paths]]"
    and h4l: "length (arrays h4) = length (arrays h2) + length paths"
  note f = normalization_Inr[OF nm h4p h4l, folded n_def L_def]
  have w4: "pylists h4 ! wav_obj = [L..<L + n]"
    by (simp add: h4p wav_obj_def n_def L_def)
  have wh: "pylists h ! wav_obj = (if normalize c then [L + n..<L + n + n] else [L..<L + n])"
    using f by (simp add: wav_obj_def)
  have e: "pylists h ! eeg_obj = [0..<n]"
    using f by (simp add: eeg_obj_def)
  have lfa: "length fa = n" "length fv = n"
    by (simp_all add: fa fv arrays_of_def w4)
  have lw: "length (arrays_of h wav_obj) = n"
    by (simp add: arrays_of_def wh)
  have nc: "\<forall>i < n. length (fa ! i) = ncols (arrays_of h wav_obj ! i)"
  proof (intro allI impI)
    fix i assume i: "i < n"
    have a: "fa ! i = frame_amp x (arrays h4 ! (L + i))"
      using i by (simp add: fa arrays_of_def w4)
    show "length (fa ! i) = ncols (arrays_of h wav_obj ! i)"
    proof (cases "normalize c")
      case True
      with f i have "normalized x (arrays h4 ! (L + i)) = Inr (arrays h ! (L + n + i))"
        by simp
      from normalized_ncols[OF this] have "ncols (arrays h ! (L + n + i)) = ncols (arrays h4 ! (L + i))"
        by simp
      moreover have "arrays_of h wav_obj ! i = arrays h ! (L + n + i)"
        using i True by (simp add: arrays_of_def wh)
      ultimately show ?thesis by (simp add: a length_frame_amp)
    next
      case False
      with f i have "arrays h ! (L + i) = arrays h4 ! (L + i)" by simp
      moreover have "arrays_of h wav_obj ! i = arrays h ! (L + i)"
        using i False by (simp add: arrays_of_def wh)
      ultimately show ?thesis by (simp add: a length_frame_amp)
    qed
  qed
  from npos e lfa lw sl nc show ?thesis
    unfolding n_def by (simp add: arrays_of_def)
qed

lemma emap_Inr:
  "emap f xs = Inr ys \<Longrightarrow> length ys = length xs \<and> (\<forall>i < length xs. f (xs ! i) = Inr (ys ! i))"
proof (induction xs arbitrary: ys)
  case Nil
  then show ?case by simp
next
  case (Cons a xs)
  then obtain y ys' where y: "f a = Inr y" and r: "emap f xs = Inr ys'" and ys: "ys = y # ys'"
    by (auto split: sum.splits)
  from Cons.IH[OF r] y ys show ?case
    by (auto simp: nth_Cons split: nat.splits)
qed

lemma mask_fill_Inr:
  "mask_fill d m v = Inr d' \<Longrightarrow>
   length m = length d \<and> length d' = length d \<and> (\<forall>f < length d. d' ! f = (if m ! f then v else d ! f))"
  by (auto simp: mask_fill_def split: if_splits)

lemma py_setitem_length: "py_setitem d i v = Inr d' \<Longrightarrow> length d' = length d"
  by (auto simp: py_setitem_def Let_def split: if_splits)

lemma py_setitem_twice:
  "py_setitem d i v = Inr d' \<Longrightarrow> py_setitem d' i w = py_setitem d i w"
  by (auto simp: py_setitem_def Let_def split: if_splits)

lemma gt_labels_char:
  "gt_labels clip path mid gts d =
     (case gt_choice clip gts path mid of None \<Rightarrow> Inr d | Some lab \<Rightarrow> py_setitem d mid lab)"
proof (induction gts arbitrary: d)
  case Nil
  show ?case by (simp add: gt_choice_def)
next
  case (Cons g gts)
  obtain gs ge lab folder where g: "g = ((gs, ge), lab, folder)"
    by (metis prod_cases3 surj_pair)
  show ?case
  proof (cases "gt_applies clip path mid g")
    case False
    then have "gt_labels clip path mid (g # gts) d = gt_labels clip path mid gts d"
      by (auto simp: g gt_applies_def)
    moreover from False have "gt_choice clip (g # gts) path mid = gt_choice clip gts path mid"
      by (simp add: gt_choice_def)
    ultimately show ?thesis by (simp add: Cons.IH)
  next
    case True
    then have step: "gt_labels clip path mid (g # gts) d =
        (case py_setitem d mid lab of Inl e \<Rightarrow> Inl e | Inr d' \<Rightarrow> gt_labels clip path mid gts d')"
      by (auto simp: g gt_applies_def)
    show ?thesis
    proof (cases "filter (gt_applies clip path mid) gts")
      case Nil
      with True have c: "gt_choice clip (g # gts) path mid = Some lab"
        "gt_choice clip gts path mid = None"
        by (simp_all add: gt_choice_def g)
      show ?thesis
        by (cases "py_setitem d mid lab") (simp_all add: step c Cons.IH)
    next
      case (Cons g' gs')
      with True have c: "gt_choice clip (g # gts) path mid = gt_choice clip gts path mid"
        by (simp add: gt_choice_def)
      from Cons obtain lab' where c': "gt_choice clip gts path mid = Some lab'"
        by (simp add: gt_choice_def)
      show ?thesis
      proof (cases "py_setitem d mid lab")
        case (Inl e)
        then have "py_setitem d mid lab' = Inl e"
          by (auto simp: py_setitem_def Let_def split: if_splits)
        with Inl show ?thesis by (simp add: step c c')
      next
        case (Inr d')
        from py_setitem_twice[OF this] Inr show ?thesis
          by (simp add: step c c' Cons.IH)
      qed
    qed
  qed
qed

lemma py_setitem_nonneg:
  "0 \<le> i \<Longrightarrow> py_setitem d i v = Inr d' \<Longrightarrow> d' = d[nat i := v] \<and> nat i < length d"
  by (auto simp: py_setitem_def Let_def split: if_splits)

lemma gt_offsets_char:
  assumes "efold (\<lambda>offset. gt_labels clip path (offset + h) gts) os d = Inr d'"
    and "\<forall>offset \<in> set os. 0 \<le> offset + h"
  shows "length d' = length d \<and>
     (\<forall>f < length d. d' ! f =
        (if int f - h \<in> set os
         then (case gt_choice clip gts path (int f) of None \<Rightarrow> d ! f | Some lab \<Rightarrow> lab)
         else d ! f))"
  using assms
proof (induction os arbitrary: d)
  case Nil
  then show ?case by simp
next
  case (Cons a os)
  from Cons.prems(1) obtain d1 where
    s: "gt_labels clip path (a + h) gts d = Inr d1" and
    r: "efold (\<lambda>offset. gt_labels clip path (offset + h) gts) os d1 = Inr d'"
    by (auto split: sum.splits)
  from Cons.prems(2) have nn: "0 \<le> a + h" and rest: "\<forall>offset \<in> set os. 0 \<le> offset + h"
    by simp_all
  note ih = Cons.IH[OF r rest]
  have d1: "length d1 = length d \<and>
     (\<forall>f < length d. d1 ! f =
        (if int f = a + h
         then (case gt_choice clip gts path (int f) of None \<Rightarrow> d ! f | Some lab \<Rightarrow> lab)
         else d ! f))"
  proof (cases "gt_choice clip gts path (a + h)")
    case None
    with s have "d1 = d" by (simp add: gt_labels_char)
    with None show ?thesis by auto
  next
    case (Some lab)
    with s have "py_setitem d (a + h) lab = Inr d1" by (simp add: gt_labels_char)
    from py_setitem_nonneg[OF nn this] have e: "d1 = d[nat (a + h) := lab]" "nat (a + h) < length d"
      by simp_all
    show ?thesis
    proof (intro conjI allI impI)
      show "length d1 = length d" by (simp add: e)
    next
      fix f assume f: "f < length d"
      show "d1 ! f = (if int f = a + h
         then (case gt_choice clip gts path (int f) of None \<Rightarrow> d ! f | Some lab \<Rightarrow> lab)
         else d ! f)"
      proof (cases "int f = a + h")
        case True
        then have "f = nat (a + h)" by simp
        with True Some f show ?thesis by (simp add: e)
      next
        case False
        with nn have "f \<noteq> nat (a + h)" by auto
        with False show ?thesis by (simp add: e)
      qed
    qed
  qed
  show ?case
  proof (intro conjI allI impI)
    show "length d' = length d" using ih d1 by simp
  next
    fix f assume f: "f < length d"
    have eq: "int f - h = a \<longleftrightarrow> int f = a + h" by auto
    from f ih d1 have
      a1: "d' ! f = (if int f - h \<in> set os
         then (case gt_choice clip gts path (int f) of None \<Rightarrow> d1 ! f | Some lab \<Rightarrow> lab)
         else d1 ! f)" and
      a2: "d1 ! f = (if int f = a + h
         then (case gt_choice clip gts path (int f) of None \<Rightarrow> d ! f | Some lab \<Rightarrow> lab)
         else d ! f)"
      by simp_all
    show "d' ! f = (if int f - h \<in> set (a # os)
         then (case gt_choice clip gts path (int f) of None \<Rightarrow> d ! f | Some lab \<Rightarrow> lab)
         else d ! f)"
      unfolding a1 a2 by (auto simp: eq split: option.splits)
  qed
qed

lemma gt_exp_char:
  assumes "0 \<le> clip" and "gt_exp clip gts path n0 d = Inr d'"
  shows "length d' = length d \<and>
     (\<forall>f < length d. d' ! f = (case gt_label clip gts path n0 f of None \<Rightarrow> d ! f | Some lab \<Rightarrow> lab))"
proof -
  define h where "h = clip div 2"
  from assms(1) have h0: "0 \<le> h" by (simp add: h_def)
  from assms(2) have e: "efold (\<lambda>offset. gt_labels clip path (offset + h) gts)
       [h .. int n0 - h - 1] d = Inr d'"
    by (simp add: gt_exp_def h_def)
  have nn: "\<forall>offset \<in> set [h .. int n0 - h - 1]. 0 \<le> offset + h"
    using h0 by auto
  note c = gt_offsets_char[OF e nn]
  have m: "\<And>f::nat. int f - h \<in> set [h .. int n0 - h - 1] \<longleftrightarrow> 2 * h \<le> int f \<and> int f < int n0"
    by auto
  from c show ?thesis
    by (simp add: m gt_label_def h_def)
qed

lemma sfold_append:
  "sfold f (xs @ ys) s =
     (case sfold f xs s of (s', Some e) \<Rightarrow> (s', Some e) | (s', None) \<Rightarrow> sfold f ys s')"
  by (induction xs arbitrary: s) (auto split: prod.splits option.splits)

lemma init_read_error:
  "read_data x (ti c) (tf c) paths = (st, Some e) \<Longrightarrow> init x c paths = Inl e"
  by (simp add: init_def signal_stages_def ebind_def split: prod.splits)

section \<open>The claims\<close>

text \<open>
  C6. The inclusion mask has one entry per frame and starts all true; a frame is removed
  exactly when \<^verbatim>\<open>dump_rest\<close> is set and its label is REST, or \<^verbatim>\<open>no_bounds\<close> is set and its
  label is BOUNDARY. So with \<^verbatim>\<open>dump_rest=True\<close> no retained frame carries REST, with
  \<^verbatim>\<open>no_bounds=True\<close> no retained frame carries BOUNDARY, with neither flag every frame is
  retained, and the retained index arrays are the frames the mask selects.
\<close>

theorem inclusion_mask:
  assumes "init x c paths = Inr s"
  shows "length (data_mask s) = length (data_behav_concat s) \<and>
    (\<forall>f < length (data_mask s).
       data_mask s ! f = (\<not> (dump_rest c \<and> data_behav_concat s ! f = REST) \<and>
                          \<not> (no_bounds c \<and> data_behav_concat s ! f = BOUNDARY))) \<and>
    (dump_rest c \<longrightarrow>
       (\<forall>f < length (data_mask s). data_mask s ! f \<longrightarrow> data_behav_concat s ! f \<noteq> REST)) \<and>
    (no_bounds c \<longrightarrow>
       (\<forall>f < length (data_mask s). data_mask s ! f \<longrightarrow> data_behav_concat s ! f \<noteq> BOUNDARY)) \<and>
    (\<not> dump_rest c \<and> \<not> no_bounds c \<longrightarrow> data_mask s = replicate (length (data_behav_concat s)) True) \<and>
    frame_index s = compress (data_mask s) (frame_idx s) \<and>
    experminet_index s = compress (data_mask s) (exp_idx s)"
proof -
  from assms obtain eidx fidx labels fi ei where
    fi: "mask_select fidx (data_mask_of (dump_rest c) (no_bounds c) labels) = Inr fi" and
    ei: "mask_select eidx (data_mask_of (dump_rest c) (no_bounds c) labels) = Inr ei" and
    s: "data_mask s = data_mask_of (dump_rest c) (no_bounds c) labels"
       "data_behav_concat s = labels" "frame_idx s = fidx" "exp_idx s = eidx"
       "frame_index s = fi" "experminet_index s = ei"
    by (rule init_Inr) simp
  have len: "length (data_mask s) = length (data_behav_concat s)"
    by (simp add: s length_data_mask_of)
  have nth: "\<forall>f < length (data_mask s).
       data_mask s ! f = (\<not> (dump_rest c \<and> data_behav_concat s ! f = REST) \<and>
                          \<not> (no_bounds c \<and> data_behav_concat s ! f = BOUNDARY))"
    by (simp add: s length_data_mask_of nth_data_mask_of)
  have all: "\<not> dump_rest c \<and> \<not> no_bounds c \<longrightarrow>
      data_mask s = replicate (length (data_behav_concat s)) True"
    by (simp add: s data_mask_of_def)
  have dr: "dump_rest c \<longrightarrow>
       (\<forall>f < length (data_mask s). data_mask s ! f \<longrightarrow> data_behav_concat s ! f \<noteq> REST)"
    using nth by auto
  have nb: "no_bounds c \<longrightarrow>
       (\<forall>f < length (data_mask s). data_mask s ! f \<longrightarrow> data_behav_concat s ! f \<noteq> BOUNDARY)"
    using nth by auto
  have fi': "frame_index s = compress (data_mask s) (frame_idx s)"
    using mask_select_Inr[OF fi] by (simp add: s)
  have ei': "experminet_index s = compress (data_mask s) (exp_idx s)"
    using mask_select_Inr[OF ei] by (simp add: s)
  from len nth dr nb all fi' ei' show ?thesis
    by blast
qed

theorem inclusion_mask_witness:
  "data_behav_concat (projr (init ext_ex cfg_drop paths_ex)) =
     [BOUNDARY, REST, CLASS 0, NONE, NONE, BOUNDARY, BOUNDARY, REST, CLASS 0, BOUNDARY] \<and>
   data_mask (projr (init ext_ex cfg_drop paths_ex)) =
     [False, False, True, True, True, False, False, False, True, False] \<and>
   frame_index (projr (init ext_ex cfg_drop paths_ex)) = [2, 3, 4, 2] \<and>
   experminet_index (projr (init ext_ex cfg_drop paths_ex)) = [0, 0, 0, 1] \<and>
   dump_rest cfg_drop \<and> no_bounds cfg_drop"
proof -
  have run: "init ext_ex cfg_drop paths_ex = Inr (projr (init ext_ex cfg_drop paths_ex))"
    by code_simp
  have facts: "data_behav_concat (projr (init ext_ex cfg_drop paths_ex)) =
     [BOUNDARY, REST, CLASS 0, NONE, NONE, BOUNDARY, BOUNDARY, REST, CLASS 0, BOUNDARY] \<and>
   data_mask (projr (init ext_ex cfg_drop paths_ex)) =
     [False, False, True, True, True, False, False, False, True, False] \<and>
   frame_index (projr (init ext_ex cfg_drop paths_ex)) = [2, 3, 4, 2] \<and>
   experminet_index (projr (init ext_ex cfg_drop paths_ex)) = [0, 0, 0, 1] \<and>
   dump_rest cfg_drop \<and> no_bounds cfg_drop"
    by code_simp
  from inclusion_mask[OF run] facts show ?thesis
    by blast
qed

text \<open>
  C8, as stated, fails: with \<^verbatim>\<open>ti=4\<close>, \<^verbatim>\<open>tf=None\<close> and recordings of six and four samples the
  first experiment resolves \<^verbatim>\<open>tf\<close> to 6 and its matrix is allocated; the second resolves it
  to \<^verbatim>\<open>min(6, 4) = 4\<close>, which is not greater than \<^verbatim>\<open>ti\<close>, and the assertion fails with one
  per-experiment matrix already in \<^verbatim>\<open>exp_eeg_list\<close>.
\<close>

theorem assert_after_allocation:
  "read_data ext_ex 4 None paths_ex =
     ((\<lparr>arrays = [\<lparr>ncols = 2, rows = [[Fin 5, Fin 6], [Fin 2, Fin 1], [Fin 2, Fin 2]]\<rparr>],
        pylists = [[0], [], []]\<rparr>, Some 4), Some AssertionError) \<and>
   init ext_ex (cfg_raw\<lparr>ti := 4\<rparr>) paths_ex = Inl AssertionError"
  by code_simp

text \<open>
  C8, amended. In the round of an experiment whose file has \<open>n\<close> rows, \<^verbatim>\<open>tf\<close> resolves to
  \<open>min(tf, n)\<close> when it has a value and to \<open>n\<close> when it is unset; after the first round it
  always has a value, so the first discovered length bounds the later experiments. If the
  resolved \<^verbatim>\<open>tf\<close> is not greater than \<^verbatim>\<open>ti\<close> the constructor fails with AssertionError
  before it allocates the matrix of that experiment: the store holds the matrices of the
  earlier experiments only (none when it is the first experiment). Otherwise the matrix of
  the experiment is allocated with shape (number of electrodes, \<open>tf - ti\<close>).
\<close>

theorem resolved_tf:
  assumes "sfold (read_exp x t0) ps (heap0, tfo) = ((h, tfo1), None)"
    and "read_csv x p = Inr df" and "df_length df = Inr n"
  shows "resolve_tf tfo1 n = (case tfo1 of None \<Rightarrow> n | Some t \<Rightarrow> min t n) \<and>
    (ps \<noteq> [] \<longrightarrow> tfo1 \<noteq> None) \<and> length (arrays h) = length ps \<and>
    (resolve_tf tfo1 n \<le> t0 \<longrightarrow>
       read_data x t0 tfo (ps @ p # qs) = ((h, Some (resolve_tf tfo1 n)), Some AssertionError) \<and>
       (\<forall>c. ti c = t0 \<and> tf c = tfo \<longrightarrow> init x c (ps @ p # qs) = Inl AssertionError)) \<and>
    (t0 < resolve_tf tfo1 n \<longrightarrow>
       (\<exists>h' r. read_exp x t0 p (h, tfo1) = ((h', Some (resolve_tf tfo1 n)), r) \<and>
          length (arrays h') = length (arrays h) + 1 \<and>
          pylists h' = (pylists h)[eeg_obj := pylists h ! eeg_obj @ [length (arrays h)]] \<and>
          (\<forall>b < length (arrays h). arrays h' ! b = arrays h ! b) \<and>
          shape0 (arrays h' ! length (arrays h)) = length (electrode_names x) \<and>
          shape1 (arrays h' ! length (arrays h)) = nat (resolve_tf tfo1 n - t0)))"
proof -
  have a: "resolve_tf tfo1 n = (case tfo1 of None \<Rightarrow> n | Some t \<Rightarrow> min t n)"
    by (simp add: resolve_tf_def)
  have l: "length (arrays h) = length ps"
    using read_loop_None[OF assms(1)] by (simp add: heap0_def eeg_obj_def)
  have t: "ps \<noteq> [] \<longrightarrow> tfo1 \<noteq> None"
  proof
    assume "ps \<noteq> []"
    then obtain qs' q where ps: "ps = qs' @ [q]" by (metis rev_exhaust)
    from assms(1) obtain s1 where
      s1: "sfold (read_exp x t0) qs' (heap0, tfo) = (s1, None)" and
      q: "read_exp x t0 q s1 = ((h, tfo1), None)"
      unfolding ps sfold_append by (auto split: prod.splits option.splits)
    obtain h1 t1 where "s1 = (h1, t1)" by (cases s1)
    with q read_exp_cases[of x t0 q h1 t1 h tfo1 None] show "tfo1 \<noteq> None" by auto
  qed
  have b: "resolve_tf tfo1 n \<le> t0 \<longrightarrow>
       read_data x t0 tfo (ps @ p # qs) = ((h, Some (resolve_tf tfo1 n)), Some AssertionError) \<and>
       (\<forall>c. ti c = t0 \<and> tf c = tfo \<longrightarrow> init x c (ps @ p # qs) = Inl AssertionError)"
  proof
    assume le: "resolve_tf tfo1 n \<le> t0"
    then have r: "read_exp x t0 p (h, tfo1) = ((h, Some (resolve_tf tfo1 n)), Some AssertionError)"
      by (simp add: read_exp_def assms(2,3))
    have rd: "read_data x t0 tfo (ps @ p # qs) = ((h, Some (resolve_tf tfo1 n)), Some AssertionError)"
      by (simp add: read_data_def sfold_append assms(1) r)
    have "\<forall>c. ti c = t0 \<and> tf c = tfo \<longrightarrow> init x c (ps @ p # qs) = Inl AssertionError"
      using rd by (auto intro: init_read_error)
    with rd show "read_data x t0 tfo (ps @ p # qs) = ((h, Some (resolve_tf tfo1 n)), Some AssertionError) \<and>
       (\<forall>c. ti c = t0 \<and> tf c = tfo \<longrightarrow> init x c (ps @ p # qs) = Inl AssertionError)"
      by blast
  qed
  have c: "t0 < resolve_tf tfo1 n \<longrightarrow>
       (\<exists>h' r. read_exp x t0 p (h, tfo1) = ((h', Some (resolve_tf tfo1 n)), r) \<and>
          length (arrays h') = length (arrays h) + 1 \<and>
          pylists h' = (pylists h)[eeg_obj := pylists h ! eeg_obj @ [length (arrays h)]] \<and>
          (\<forall>b < length (arrays h). arrays h' ! b = arrays h ! b) \<and>
          shape0 (arrays h' ! length (arrays h)) = length (electrode_names x) \<and>
          shape1 (arrays h' ! length (arrays h)) = nat (resolve_tf tfo1 n - t0))"
  proof
    assume lt: "t0 < resolve_tf tfo1 n"
    obtain h' tfo' r where s: "read_exp x t0 p (h, tfo1) = ((h', tfo'), r)"
      by (metis surj_pair)
    from read_exp_cases[OF s] assms(2,3) lt have
      "tfo' = Some (resolve_tf tfo1 n)"
      "length (arrays h') = length (arrays h) + 1"
      "pylists h' = (pylists h)[eeg_obj := pylists h ! eeg_obj @ [length (arrays h)]]"
      "\<forall>b < length (arrays h). arrays h' ! b = arrays h ! b"
      "shape0 (arrays h' ! length (arrays h)) = length (electrode_names x)"
      "shape1 (arrays h' ! length (arrays h)) = nat (resolve_tf tfo1 n - t0)"
      by (auto split: if_splits)
    with s show "\<exists>h' r. read_exp x t0 p (h, tfo1) = ((h', Some (resolve_tf tfo1 n)), r) \<and>
          length (arrays h') = length (arrays h) + 1 \<and>
          pylists h' = (pylists h)[eeg_obj := pylists h ! eeg_obj @ [length (arrays h)]] \<and>
          (\<forall>b < length (arrays h). arrays h' ! b = arrays h ! b) \<and>
          shape0 (arrays h' ! length (arrays h)) = length (electrode_names x) \<and>
          shape1 (arrays h' ! length (arrays h)) = nat (resolve_tf tfo1 n - t0)"
      by blast
  qed
  from a t l b c show ?thesis by blast
qed

theorem resolved_tf_witness:
  "sfold (read_exp ext_ex 4) [''exp_a.csv''] (heap0, None) =
     ((\<lparr>arrays = [\<lparr>ncols = 2, rows = [[Fin 5, Fin 6], [Fin 2, Fin 1], [Fin 2, Fin 2]]\<rparr>],
        pylists = [[0], [], []]\<rparr>, Some 6), None) \<and>
   df_length [(''TP9'', [Fin 1, Fin 2, Fin 3, Fin 4]), (''AF7'', [Fin 4, NaN, Fin 2, Fin 1]),
              (''AF8'', [Fin 2, Fin 2, Fin 2, Fin 2])] = Inr 4 \<and>
   resolve_tf (Some 6) 4 = 4 \<and>
   read_data ext_ex 4 None ([''exp_a.csv''] @ ''exp_b.csv'' # []) =
     ((\<lparr>arrays = [\<lparr>ncols = 2, rows = [[Fin 5, Fin 6], [Fin 2, Fin 1], [Fin 2, Fin 2]]\<rparr>],
        pylists = [[0], [], []]\<rparr>, Some 4), Some AssertionError) \<and>
   init ext_ex (cfg_raw\<lparr>ti := 4\<rparr>) ([''exp_a.csv''] @ ''exp_b.csv'' # []) = Inl AssertionError \<and>
   resolve_tf None 6 = 6 \<and>
   shape0 (arrays (fst (fst (read_exp ext_ex 4 ''exp_a.csv'' (heap0, None)))) ! 0) = 3 \<and>
   shape1 (arrays (fst (fst (read_exp ext_ex 4 ''exp_a.csv'' (heap0, None)))) ! 0) = 2"
proof -
  have pre: "sfold (read_exp ext_ex 4) [''exp_a.csv''] (heap0, None) =
     ((\<lparr>arrays = [\<lparr>ncols = 2, rows = [[Fin 5, Fin 6], [Fin 2, Fin 1], [Fin 2, Fin 2]]\<rparr>],
        pylists = [[0], [], []]\<rparr>, Some 6), None)"
    by code_simp
  have csv: "read_csv ext_ex ''exp_b.csv'' =
     Inr [(''TP9'', [Fin 1, Fin 2, Fin 3, Fin 4]), (''AF7'', [Fin 4, NaN, Fin 2, Fin 1]),
          (''AF8'', [Fin 2, Fin 2, Fin 2, Fin 2])]"
    by code_simp
  have len: "df_length [(''TP9'', [Fin 1, Fin 2, Fin 3, Fin 4]), (''AF7'', [Fin 4, NaN, Fin 2, Fin 1]),
              (''AF8'', [Fin 2, Fin 2, Fin 2, Fin 2])] = Inr 4"
    by code_simp
  have facts: "resolve_tf (Some 6) 4 = 4 \<and> ti (cfg_raw\<lparr>ti := 4\<rparr>) = 4 \<and> tf (cfg_raw\<lparr>ti := 4\<rparr>) = None"
    by code_simp
  have fail: "read_data ext_ex 4 None ([''exp_a.csv''] @ ''exp_b.csv'' # []) =
     ((\<lparr>arrays = [\<lparr>ncols = 2, rows = [[Fin 5, Fin 6], [Fin 2, Fin 1], [Fin 2, Fin 2]]\<rparr>],
        pylists = [[0], [], []]\<rparr>, Some 4), Some AssertionError) \<and>
   init ext_ex (cfg_raw\<lparr>ti := 4\<rparr>) ([''exp_a.csv''] @ ''exp_b.csv'' # []) = Inl AssertionError"
    using resolved_tf[OF pre csv len, of "[]"] facts by auto
  have pre0: "sfold (read_exp ext_ex 4) [] (heap0, None) = ((heap0, None), None)"
    by simp
  have csv0: "read_csv ext_ex ''exp_a.csv'' =
     Inr [(''TP9'', [Fin 1, Fin 2, Fin 3, Fin 4, Fin 5, Fin 6]),
          (''AF7'', [Fin 6, Fin 5, Fin 4, Fin 3, Fin 2, Fin 1]),
          (''AF8'', [Fin 2, Fin 2, Fin 2, Fin 2, Fin 2, Fin 2])]"
    by code_simp
  have len0: "df_length [(''TP9'', [Fin 1, Fin 2, Fin 3, Fin 4, Fin 5, Fin 6]),
          (''AF7'', [Fin 6, Fin 5, Fin 4, Fin 3, Fin 2, Fin 1]),
          (''AF8'', [Fin 2, Fin 2, Fin 2, Fin 2, Fin 2, Fin 2])] = Inr 6"
    by code_simp
  have facts0: "resolve_tf None 6 = 6 \<and> length (arrays heap0) = 0 \<and>
      length (electrode_names ext_ex) = 3"
    by code_simp
  have ok: "shape0 (arrays (fst (fst (read_exp ext_ex 4 ''exp_a.csv'' (heap0, None)))) ! 0) = 3 \<and>
   shape1 (arrays (fst (fst (read_exp ext_ex 4 ''exp_a.csv'' (heap0, None)))) ! 0) = 2"
    using resolved_tf[OF pre0 csv0 len0, of "[]"] facts0 by auto
  from pre len facts facts0 fail ok show ?thesis
    by simp
qed

text \<open>
  C3. The loop over \<^verbatim>\<open>offset\<close> runs over
  \<^verbatim>\<open>range(clip_len // 2, exp.shape[0] - clip_len // 2)\<close>, and \<^verbatim>\<open>shape[0]\<close> is the number of
  electrodes, where lines 129 to 136 take \<^verbatim>\<open>shape[1]\<close> for the number of frames. With four
  electrodes and \<^verbatim>\<open>clip_len=100\<close> the range is empty: frame 500 of an experiment of 1000
  frames passes the tests of lines 149 to 152 for the interval (0, 1000) and lies 500
  frames from either end of the experiment, and yet every label stays NONE.
\<close>

theorem gt_range_electrode_count:
  "gt_applies 100 ''exp_a.csv'' 500 ((0, 1000), CLASS 0, ''exp'') \<and>
   shape1 (np_zeros 4 1000) = 1000 \<and>
   gt_stage 100 [((0, 1000), CLASS 0, ''exp'')] [''exp_a.csv''] [np_zeros 4 1000]
     (behav_init [np_zeros 4 1000]) = Inr [replicate 1000 NONE]"
  by (simp add: gt_applies_def gt_stage_def gt_exp_def behav_init_def np_zeros_def
      shape0_def shape1_def)

end
